theory Spec2Isabelle
  imports Main "HOL-Library.Char_ord" "HOL-Library.List_Lexorder"
begin

section \<open>The in-memory event store\<close>

subsection \<open>Event ids\<close>

text \<open>
  \<^verbatim>\<open>eventId.split("_")\<close>: the pieces of a string between the separator characters.
  The result is never empty: the empty string splits into one empty piece.
\<close>

fun split :: "char \<Rightarrow> string \<Rightarrow> string list" where
  "split sep [] = [[]]"
| "split sep (c # cs) =
     (if c = sep then [] # split sep cs
      else (case split sep cs of
              [] \<Rightarrow> [[c]]
            | p # ps \<Rightarrow> (c # p) # ps))"

text \<open>
  \<^verbatim>\<open>getStreamIdFromEventId\<close>: \<^verbatim>\<open>parts.length > 0 ? parts[0] : ""\<close>.
\<close>

definition getStreamIdFromEventId :: "string \<Rightarrow> string" where
  "getStreamIdFromEventId eventId =
     (let parts = split (CHR ''_'') eventId
      in if length parts > 0 then parts ! 0 else [])"

text \<open>
  The decimal rendering of a number inside a template literal. \<^verbatim>\<open>Date.now()\<close> is an
  integer number of milliseconds, far below the size where JavaScript switches to the
  exponent notation.
\<close>

fun show_nat :: "nat \<Rightarrow> string" where
  "show_nat n =
     (if n < 10 then [''0123456789'' ! n]
      else show_nat (n div 10) @ [''0123456789'' ! (n mod 10)])"

declare show_nat.simps [simp del]

definition number_to_string :: "int \<Rightarrow> string" where
  "number_to_string i = (if i < 0 then CHR ''-'' # show_nat (nat (- i)) else show_nat (nat i))"

text \<open>
  \<^verbatim>\<open>generateEventId\<close>. The two readings of the environment are arguments: \<open>now\<close> is
  the value of \<^verbatim>\<open>Date.now()\<close> and \<open>rnd\<close> the value of
  \<^verbatim>\<open>Math.random().toString(36).substring(2, 10)\<close>, which is a string of at most eight
  characters out of \<^verbatim>\<open>0-9a-z\<close> (\<open>random_suffix\<close>).
\<close>

definition generateEventId :: "string \<Rightarrow> int \<Rightarrow> string \<Rightarrow> string" where
  "generateEventId sid now rnd = sid @ ''_'' @ number_to_string now @ ''_'' @ rnd"

definition random_suffix :: "string \<Rightarrow> bool" where
  "random_suffix rnd =
     (length rnd \<le> 8 \<and> list_all (\<lambda>c. c \<in> set ''0123456789abcdefghijklmnopqrstuvwxyz'') rnd)"

subsection \<open>The map of events\<close>

record 'm event =
  streamId :: string
  message :: 'm
  timestamp :: int

text \<open>
  A JavaScript \<^verbatim>\<open>Map\<close> iterates in insertion order, so the map is an association list
  in that order. \<^verbatim>\<open>set\<close> on a key already present replaces the value where it stands,
  on a new key it appends; \<^verbatim>\<open>delete\<close> removes the key. The keys of a \<^verbatim>\<open>Map\<close> are
  distinct, which is the hypothesis \<open>distinct (map fst m)\<close> of the theorems below.
\<close>

type_synonym ('k, 'v) js_map = "('k \<times> 'v) list"

definition Map_has :: "'k \<Rightarrow> ('k, 'v) js_map \<Rightarrow> bool" where
  "Map_has k m = (k \<in> fst ` set m)"

definition Map_get :: "'k \<Rightarrow> ('k, 'v) js_map \<Rightarrow> 'v option" where
  "Map_get k m = map_of m k"

fun Map_set :: "'k \<Rightarrow> 'v \<Rightarrow> ('k, 'v) js_map \<Rightarrow> ('k, 'v) js_map" where
  "Map_set k v [] = [(k, v)]"
| "Map_set k v ((k', v') # m) =
     (if k' = k then (k, v) # m else (k', v') # Map_set k v m)"

definition Map_delete :: "'k \<Rightarrow> ('k, 'v) js_map \<Rightarrow> ('k, 'v) js_map" where
  "Map_delete k m = filter (\<lambda>(k', v). k' \<noteq> k) m"

type_synonym 'm events = "(string, 'm event) js_map"

definition maxAge :: int where
  "maxAge = 3600000"

definition maxEventsPerStream :: nat where
  "maxEventsPerStream = 1000"

subsection \<open>Eviction\<close>

text \<open>
  The first loop of \<^verbatim>\<open>cleanupOldEvents\<close> walks the entries, deletes each entry older
  than \<open>maxAge\<close> from the map and counts the others per stream. The entries still to
  visit are the first list, the map as it stands is the second, and the counts are a
  \<^verbatim>\<open>Map\<close> of their own (\<^verbatim>\<open>streamEventCounts.get(s) || 0\<close> is the count so far).
\<close>

fun sweep ::
  "int \<Rightarrow> (string \<times> 'm event) list \<Rightarrow> 'm events \<Rightarrow> (string, nat) js_map
    \<Rightarrow> 'm events \<times> (string, nat) js_map" where
  "sweep now [] evs counts = (evs, counts)"
| "sweep now ((eventId, ev) # rest) evs counts =
     (if now - timestamp ev > maxAge then sweep now rest (Map_delete eventId evs) counts
      else
        let count = (case Map_get (streamId ev) counts of None \<Rightarrow> 0 | Some c \<Rightarrow> c)
        in sweep now rest evs (Map_set (streamId ev) (count + 1) counts))"

text \<open>
  The inner loop \<^verbatim>\<open>for (let i = 0; i < toRemove; i++) this.events.delete(streamEvents[i][0])\<close>:
  the first argument counts the rounds left, the second is \<^verbatim>\<open>streamEvents\<close> from index
  \<open>i\<close> on. Reading past the end of \<^verbatim>\<open>streamEvents\<close> gives \<^verbatim>\<open>undefined\<close>, and
  \<^verbatim>\<open>undefined[0]\<close> throws a TypeError: the result \<open>None\<close>.
\<close>

fun remove_oldest :: "nat \<Rightarrow> (string \<times> 'm event) list \<Rightarrow> 'm events \<Rightarrow> 'm events option" where
  "remove_oldest 0 streamEvents evs = Some evs"
| "remove_oldest (Suc n) [] evs = None"
| "remove_oldest (Suc n) (e # streamEvents) evs =
     remove_oldest n streamEvents (Map_delete (fst e) evs)"

text \<open>
  The second loop, over the entries of \<^verbatim>\<open>streamEventCounts\<close>. \<^verbatim>\<open>Array.prototype.sort\<close>
  is stable, and so is \<open>sort_key\<close>.
\<close>

fun evict :: "(string \<times> nat) list \<Rightarrow> 'm events \<Rightarrow> 'm events option" where
  "evict [] evs = Some evs"
| "evict ((sid, count) # rest) evs =
     (if count > maxEventsPerStream then
        let streamEvents = sort_key (\<lambda>(i, e). timestamp e) (filter (\<lambda>(i, e). streamId e = sid) evs);
            toRemove = count - maxEventsPerStream
        in (case remove_oldest toRemove streamEvents evs of
              None \<Rightarrow> None
            | Some evs' \<Rightarrow> evict rest evs')
      else evict rest evs)"

definition cleanupOldEvents :: "int \<Rightarrow> 'm events \<Rightarrow> 'm events option" where
  "cleanupOldEvents now evs =
     (case sweep now evs evs [] of (evs', counts) \<Rightarrow> evict counts evs')"

text \<open>
  \<^verbatim>\<open>storeEvent\<close> reads the clock three times: for the id (\<open>t_id\<close>), for the timestamp
  (\<open>t_ts\<close>) and in the cleanup (\<open>t_now\<close>). It returns the id and the map after the call.
\<close>

definition storeEvent ::
  "string \<Rightarrow> 'm \<Rightarrow> int \<Rightarrow> string \<Rightarrow> int \<Rightarrow> int \<Rightarrow> 'm events \<Rightarrow> (string \<times> 'm events) option" where
  "storeEvent sid msg t_id rnd t_ts t_now evs =
     (let eventId = generateEventId sid t_id rnd;
          evs1 = Map_set eventId \<lparr>streamId = sid, message = msg, timestamp = t_ts\<rparr> evs
      in (case cleanupOldEvents t_now evs1 of
            None \<Rightarrow> None
          | Some evs2 \<Rightarrow> Some (eventId, evs2)))"

definition getEventCount :: "'m events \<Rightarrow> nat" where
  "getEventCount evs = length evs"

subsection \<open>Replay\<close>

text \<open>
  The loop of \<^verbatim>\<open>replayEventsAfter\<close> over the sorted entries, with the flag
  \<^verbatim>\<open>foundLastEvent\<close>; the result lists the calls of \<^verbatim>\<open>send\<close> in order, each
  awaited before the next. The callback is the caller's: the list is the run in which
  every \<^verbatim>\<open>send\<close> resolves (a \<^verbatim>\<open>send\<close> that rejects ends the replay at that call).
\<close>

fun replay_loop :: "string \<Rightarrow> string \<Rightarrow> bool \<Rightarrow> (string \<times> 'm event) list \<Rightarrow> (string \<times> 'm) list" where
  "replay_loop sid lastEventId foundLastEvent [] = []"
| "replay_loop sid lastEventId foundLastEvent ((eventId, ev) # rest) =
     (if streamId ev \<noteq> sid then replay_loop sid lastEventId foundLastEvent rest
      else if eventId = lastEventId then replay_loop sid lastEventId True rest
      else if foundLastEvent then (eventId, message ev) # replay_loop sid lastEventId foundLastEvent rest
      else replay_loop sid lastEventId foundLastEvent rest)"

text \<open>
  \<^verbatim>\<open>replayEventsAfter\<close>. The entries are sorted by \<^verbatim>\<open>localeCompare\<close> on the ids, the
  collation of the host, which is not part of the repository: it is the argument
  \<open>ckey\<close>, the sort key of the collation, so that \<^verbatim>\<open>a.localeCompare(b) <= 0\<close> is
  \<open>ckey a \<le> ckey b\<close>. \<^verbatim>\<open>Array.prototype.sort\<close> is stable, as \<open>sort_key\<close> is. The
  result is the returned string and the calls of \<^verbatim>\<open>send\<close>.
\<close>

definition replayEventsAfter ::
  "(string \<Rightarrow> 'k::linorder) \<Rightarrow> string \<Rightarrow> 'm events \<Rightarrow> string \<times> (string \<times> 'm) list" where
  "replayEventsAfter ckey lastEventId evs =
     (if lastEventId = [] \<or> \<not> Map_has lastEventId evs then ([], [])
      else
        let sid = getStreamIdFromEventId lastEventId
        in if sid = [] then ([], [])
           else (sid, replay_loop sid lastEventId False (sort_key (\<lambda>(i, e). ckey i) evs)))"

text \<open>The events of one stream, in the order of the map (the order of arrival).\<close>

definition stream_events :: "string \<Rightarrow> 'm events \<Rightarrow> (string \<times> 'm event) list" where
  "stream_events sid evs = filter (\<lambda>(i, e). streamId e = sid) evs"

text \<open>
  Comparing ids by their code units, one sort key among those \<^verbatim>\<open>localeCompare\<close> can
  have; it is used for the concrete runs only.
\<close>

definition codeUnitKey :: "string \<Rightarrow> nat list" where
  "codeUnitKey s = map of_char s"

subsection \<open>Notions used in the statements\<close>

text \<open>The count kept for a stream in \<^verbatim>\<open>streamEventCounts\<close>, 0 for a stream without entry.\<close>

definition count_of :: "(string, nat) js_map \<Rightarrow> string \<Rightarrow> nat" where
  "count_of counts s = (case map_of counts s of None \<Rightarrow> 0 | Some c \<Rightarrow> c)"

text \<open>
  The ids of the surplus events of a stream, oldest timestamp first: of the events of
  the stream sorted by timestamp, as many as the stream holds beyond the cap.
\<close>

definition oldest_surplus :: "string \<Rightarrow> 'm events \<Rightarrow> string set" where
  "oldest_surplus sid evs =
     fst ` set (take (length (stream_events sid evs) - maxEventsPerStream)
                  (sort_key (\<lambda>(i, e). timestamp e) (stream_events sid evs)))"

text \<open>The events no older than \<open>maxAge\<close> at the time \<open>now\<close>.\<close>

definition within_window :: "int \<Rightarrow> 'm events \<Rightarrow> 'm events" where
  "within_window now evs = filter (\<lambda>(i, e). now - timestamp e \<le> maxAge) evs"

text \<open>
  A run of \<^verbatim>\<open>storeEvent\<close> calls on one store, each with its readings of the clock
  and of the random source; the result lists the ids returned, in the order of the calls.
\<close>

record 'm store_call =
  call_stream :: string
  call_message :: 'm
  call_t_id :: int
  call_rnd :: string
  call_t_ts :: int
  call_t_now :: int

fun storeEvents :: "'m store_call list \<Rightarrow> 'm events \<Rightarrow> (string list \<times> 'm events) option" where
  "storeEvents [] evs = Some ([], evs)"
| "storeEvents (c # cs) evs =
     (case storeEvent (call_stream c) (call_message c) (call_t_id c) (call_rnd c)
             (call_t_ts c) (call_t_now c) evs of
        None \<Rightarrow> None
      | Some (eventId, evs') \<Rightarrow>
          (case storeEvents cs evs' of
             None \<Rightarrow> None
           | Some (ids, evs'') \<Rightarrow> Some (eventId # ids, evs'')))"

section \<open>The session registry and the HTTP endpoints\<close>

subsection \<open>Object literals used as dictionaries\<close>

text \<open>
  \<^verbatim>\<open>transports.streamable\<close> and \<^verbatim>\<open>transports.sse\<close> are object literals
  (\<^verbatim>\<open>{} as Record<string, ...>\<close>). Reading \<^verbatim>\<open>obj[key]\<close> finds an own property
  first and then a property of \<^verbatim>\<open>Object.prototype\<close>; the inherited values are
  functions (and \<^verbatim>\<open>Object.prototype\<close> itself for \<^verbatim>\<open>__proto__\<close>), all of them
  truthy. \<^verbatim>\<open>eventStores\<close> is a \<^verbatim>\<open>Map\<close> and has no such keys.
\<close>

definition Object_prototype_names :: "string list" where
  "Object_prototype_names =
     [''constructor'', ''__proto__'', ''hasOwnProperty'', ''isPrototypeOf'',
      ''propertyIsEnumerable'', ''toLocaleString'', ''toString'', ''valueOf'',
      ''__defineGetter__'', ''__defineSetter__'', ''__lookupGetter__'', ''__lookupSetter__'']"

datatype 't property = Undefined | Own 't | Inherited string

definition get_property :: "(string \<rightharpoonup> 't) \<Rightarrow> string \<Rightarrow> 't property" where
  "get_property obj key =
     (case obj key of
        Some t \<Rightarrow> Own t
      | None \<Rightarrow> if key \<in> set Object_prototype_names then Inherited key else Undefined)"

definition truthy :: "'t property \<Rightarrow> bool" where
  "truthy p = (p \<noteq> Undefined)"

text \<open>
  \<^verbatim>\<open>obj[key] = value\<close> creates or replaces an own property, except for the key
  \<^verbatim>\<open>__proto__\<close>, where the assignment goes to the prototype and no own property
  appears. The keys assigned by this program are results of \<^verbatim>\<open>randomUUID()\<close>
  (\<open>randomUUID_result\<close>), so the replaced prototype is not modelled further.
  \<^verbatim>\<open>delete obj[key]\<close> removes an own property and nothing else.
\<close>

definition set_property :: "(string \<rightharpoonup> 't) \<Rightarrow> string \<Rightarrow> 't \<Rightarrow> (string \<rightharpoonup> 't)" where
  "set_property obj key value = (if key = ''__proto__'' then obj else obj(key \<mapsto> value))"

definition delete_property :: "(string \<rightharpoonup> 't) \<Rightarrow> string \<Rightarrow> (string \<rightharpoonup> 't)" where
  "delete_property obj key = obj(key := None)"

definition randomUUID_result :: "string \<Rightarrow> bool" where
  "randomUUID_result s = (length s = 36 \<and> list_all (\<lambda>c. c \<in> set ''0123456789abcdef-'') s)"

subsection \<open>Registry, requests and responses\<close>

record transport =
  sessionId :: "string option"

record sse_transport =
  sse_sessionId :: string

record 'm registry =
  streamable :: "string \<rightharpoonup> transport"
  sse :: "string \<rightharpoonup> sse_transport"
  eventStores :: "string \<rightharpoonup> 'm events"

definition initial_registry :: "'m registry" where
  "initial_registry = \<lparr>streamable = Map.empty, sse = Map.empty, eventStores = Map.empty\<rparr>"

text \<open>
  What a handler reads of a request: the header \<^verbatim>\<open>mcp-session-id\<close>, the value of
  \<^verbatim>\<open>isInitializeRequest(req.body)\<close>, and the query parameter \<^verbatim>\<open>sessionId\<close>.
\<close>

record request =
  session_header :: "string option"
  is_initialize :: bool
  query_sessionId :: "string option"

text \<open>
  The JSON bodies the handlers write: an error envelope with its code, its message and
  whether it carries \<^verbatim>\<open>id: null\<close>, and the result of a termination. A response is
  written by a handler (\<open>Json\<close>, \<open>Text\<close>, with the status) or by the transport of the
  SDK (\<open>By_transport\<close>).
\<close>

datatype json_body = Error_envelope int string bool | Terminated_result

datatype response = Json nat json_body | Text nat string | By_transport

text \<open>
  The SDK is not part of the repository, so what it does during one request is an
  argument of the handler: whether \<^verbatim>\<open>server.connect\<close> rejects, the id with which
  \<^verbatim>\<open>onsessioninitialized\<close> is called during \<^verbatim>\<open>handleRequest\<close> (a result of the
  \<^verbatim>\<open>sessionIdGenerator\<close>, that is of \<^verbatim>\<open>randomUUID()\<close>), whether the transport writes
  the response, and whether \<^verbatim>\<open>handleRequest\<close> (\<^verbatim>\<open>handlePostMessage\<close> for the legacy
  transport) rejects in the end.
\<close>

record sdk_behaviour =
  connect_rejects :: bool
  initialized_with :: "string option"
  writes_response :: bool
  handle_rejects :: bool

text \<open>
  The outcome of a handler: the responses written to \<^verbatim>\<open>res\<close> in order, the registry
  afterwards, whether an exception escapes the handler (its promise rejects), the event
  store and transport constructed for a new session.
\<close>

record 'm outcome =
  responses :: "response list"
  registry :: "'m registry"
  rejected :: bool
  created :: "('m events \<times> transport) option"

text \<open>\<^verbatim>\<open>sessionId && obj[sessionId]\<close>: an absent or empty header is falsy.\<close>

definition header_truthy :: "string option \<Rightarrow> bool" where
  "header_truthy h = (h \<noteq> None \<and> h \<noteq> Some [])"

definition lookup_session :: "string option \<Rightarrow> (string \<rightharpoonup> 't) \<Rightarrow> 't property" where
  "lookup_session h obj =
     (case h of
        None \<Rightarrow> Undefined
      | Some sid \<Rightarrow> if sid = [] then Undefined else get_property obj sid)"

subsection \<open>The callbacks of a session\<close>

definition onsessioninitialized :: "string \<Rightarrow> transport \<Rightarrow> 'm events \<Rightarrow> 'm registry \<Rightarrow> 'm registry" where
  "onsessioninitialized id' t eventStore reg =
     reg\<lparr>streamable := set_property (streamable reg) id' t,
         eventStores := (eventStores reg)(id' \<mapsto> eventStore)\<rparr>"

text \<open>
  The handler assigned to \<^verbatim>\<open>transport.onclose\<close>; \<open>t\<close> is the transport it closes over.
\<close>

definition onclose_handler :: "transport \<Rightarrow> 'm registry \<Rightarrow> 'm registry" where
  "onclose_handler t reg =
     (case sessionId t of
        None \<Rightarrow> reg
      | Some sid \<Rightarrow>
          if sid \<noteq> [] \<and> truthy (get_property (streamable reg) sid)
          then reg\<lparr>streamable := delete_property (streamable reg) sid,
                   eventStores := (eventStores reg)(sid := None)\<rparr>
          else reg)"

subsection \<open>POST /mcp\<close>

text \<open>
  The \<^verbatim>\<open>catch\<close> block of the handler: the internal-error envelope is written only if
  \<^verbatim>\<open>res.headersSent\<close> is false, that is if nothing was written before.
\<close>

definition post_mcp_catch :: "response list \<Rightarrow> 'm registry \<Rightarrow> ('m events \<times> transport) option \<Rightarrow> 'm outcome" where
  "post_mcp_catch sent reg cr =
     \<lparr>responses =
        (if sent = [] then [Json 500 (Error_envelope (- 32603) ''Internal server error'' True)]
         else sent),
      registry = reg, rejected = False, created = cr\<rparr>"

text \<open>
  \<^verbatim>\<open>await transport.handleRequest(req, res, req.body)\<close> inside the \<^verbatim>\<open>try\<close> block, for
  a transport of the SDK.
\<close>

definition post_mcp_handle :: "sdk_behaviour \<Rightarrow> 'm registry \<Rightarrow> ('m events \<times> transport) option \<Rightarrow> 'm outcome" where
  "post_mcp_handle sdk reg cr =
     (let sent = (if writes_response sdk then [By_transport] else [])
      in if handle_rejects sdk then post_mcp_catch sent reg cr
         else \<lparr>responses = sent, registry = reg, rejected = False, created = cr\<rparr>)"

definition post_mcp :: "sdk_behaviour \<Rightarrow> request \<Rightarrow> 'm registry \<Rightarrow> 'm outcome" where
  "post_mcp sdk req reg =
     (let sessionId = session_header req
      in if truthy (lookup_session sessionId (streamable reg)) then
           (case lookup_session sessionId (streamable reg) of
              Own t \<Rightarrow> post_mcp_handle sdk reg None
            | _ \<Rightarrow> post_mcp_catch [] reg None)
         else if \<not> header_truthy sessionId \<and> is_initialize req then
           (let eventStore = [];
                t = \<lparr>sessionId = None\<rparr>
            in if connect_rejects sdk then post_mcp_catch [] reg (Some (eventStore, t))
               else
                 (case initialized_with sdk of
                    None \<Rightarrow> post_mcp_handle sdk reg (Some (eventStore, t))
                  | Some id' \<Rightarrow>
                      post_mcp_handle sdk
                        (onsessioninitialized id' (t\<lparr>sessionId := Some id'\<rparr>) eventStore reg)
                        (Some (eventStore, t\<lparr>sessionId := Some id'\<rparr>))))
         else
           \<lparr>responses =
              [Json 400 (Error_envelope (- 32000) ''Bad Request: No valid session ID provided'' True)],
            registry = reg, rejected = False, created = None\<rparr>)"

subsection \<open>GET /mcp\<close>

definition get_mcp :: "sdk_behaviour \<Rightarrow> request \<Rightarrow> 'm registry \<Rightarrow> 'm outcome" where
  "get_mcp sdk req reg =
     (case lookup_session (session_header req) (streamable reg) of
        Undefined \<Rightarrow>
          \<lparr>responses = [Text 400 ''Session ID required''], registry = reg, rejected = False,
           created = None\<rparr>
      | Own t \<Rightarrow>
          \<lparr>responses = (if writes_response sdk then [By_transport] else []), registry = reg,
           rejected = handle_rejects sdk, created = None\<rparr>
      | Inherited k \<Rightarrow> \<lparr>responses = [], registry = reg, rejected = True, created = None\<rparr>)"

subsection \<open>DELETE /mcp\<close>

text \<open>
  \<^verbatim>\<open>transport.onclose\<close> of a registered transport is the handler above, possibly
  wrapped by the SDK when the server connected to the transport. What the call does is
  an argument: the property is unset, the handler runs and the call returns, or the call
  throws before or after the handler ran.
\<close>

datatype onclose_behaviour = Unset | Returns | Throws_before | Throws_after

definition delete_mcp_500 :: response where
  "delete_mcp_500 =
     Json 500 (Error_envelope (- 32603) ''Internal server error during session termination'' False)"

definition delete_mcp :: "onclose_behaviour \<Rightarrow> request \<Rightarrow> 'm registry \<Rightarrow> 'm outcome" where
  "delete_mcp oc req reg =
     (case session_header req of
        None \<Rightarrow>
          \<lparr>responses = [Json 400 (Error_envelope (- 32000) ''Bad Request: No session ID provided'' False)],
           registry = reg, rejected = False, created = None\<rparr>
      | Some sid \<Rightarrow>
          if sid = [] then
            \<lparr>responses = [Json 400 (Error_envelope (- 32000) ''Bad Request: No session ID provided'' False)],
             registry = reg, rejected = False, created = None\<rparr>
          else
            (case get_property (streamable reg) sid of
               Undefined \<Rightarrow>
                 \<lparr>responses = [Json 404 (Error_envelope (- 32001) ''Session not found'' False)],
                  registry = reg, rejected = False, created = None\<rparr>
             | Own t \<Rightarrow>
                 (case oc of
                    Throws_before \<Rightarrow>
                      \<lparr>responses = [delete_mcp_500], registry = reg, rejected = False, created = None\<rparr>
                  | Throws_after \<Rightarrow>
                      \<lparr>responses = [delete_mcp_500], registry = onclose_handler t reg,
                       rejected = False, created = None\<rparr>
                  | _ \<Rightarrow>
                      (let reg1 = (if oc = Returns then onclose_handler t reg else reg)
                       in \<lparr>responses = [Json 200 Terminated_result],
                           registry = reg1\<lparr>streamable := delete_property (streamable reg1) sid,
                                           eventStores := (eventStores reg1)(sid := None)\<rparr>,
                           rejected = False, created = None\<rparr>))
             | Inherited k \<Rightarrow>
                 \<lparr>responses = [Json 200 Terminated_result],
                  registry = reg\<lparr>streamable := delete_property (streamable reg) sid,
                                 eventStores := (eventStores reg)(sid := None)\<rparr>,
                  rejected = False, created = None\<rparr>))"

subsection \<open>The legacy transport: GET /sse and POST /messages\<close>

text \<open>
  \<^verbatim>\<open>new SSEServerTransport\<close> draws the session id of the transport (\<open>sid\<close>, a result of
  \<^verbatim>\<open>randomUUID()\<close> inside the SDK); \<^verbatim>\<open>server.connect\<close> starts the stream.
\<close>

definition get_sse :: "sdk_behaviour \<Rightarrow> string \<Rightarrow> 'm registry \<Rightarrow> 'm outcome" where
  "get_sse sdk sid reg =
     \<lparr>responses = (if writes_response sdk then [By_transport] else []),
      registry = reg\<lparr>sse := set_property (sse reg) sid \<lparr>sse_sessionId = sid\<rparr>\<rparr>,
      rejected = connect_rejects sdk, created = None\<rparr>"

definition sse_onclose :: "string \<Rightarrow> 'm registry \<Rightarrow> 'm registry" where
  "sse_onclose sid reg = reg\<lparr>sse := delete_property (sse reg) sid\<rparr>"

text \<open>
  \<^verbatim>\<open>req.query.sessionId\<close> of a request without the parameter is \<^verbatim>\<open>undefined\<close>, which
  as a property key is the string \<^verbatim>\<open>"undefined"\<close>.
\<close>

definition post_messages :: "sdk_behaviour \<Rightarrow> request \<Rightarrow> 'm registry \<Rightarrow> 'm outcome" where
  "post_messages sdk req reg =
     (let sessionId = (case query_sessionId req of None \<Rightarrow> ''undefined'' | Some q \<Rightarrow> q)
      in (case get_property (sse reg) sessionId of
            Own t \<Rightarrow>
              \<lparr>responses = (if writes_response sdk then [By_transport] else []), registry = reg,
               rejected = handle_rejects sdk, created = None\<rparr>
          | Inherited k \<Rightarrow> \<lparr>responses = [], registry = reg, rejected = True, created = None\<rparr>
          | Undefined \<Rightarrow>
              \<lparr>responses = [Text 400 ''No transport found for sessionId''], registry = reg,
               rejected = False, created = None\<rparr>))"

text \<open>
  The transport a message posted to \<^verbatim>\<open>/messages\<close> is handed to
  (\<^verbatim>\<open>transport.handlePostMessage\<close>), if any.
\<close>

definition post_messages_target :: "request \<Rightarrow> 'm registry \<Rightarrow> sse_transport option" where
  "post_messages_target req reg =
     (case get_property (sse reg) (case query_sessionId req of None \<Rightarrow> ''undefined'' | Some q \<Rightarrow> q) of
        Own t \<Rightarrow> Some t
      | _ \<Rightarrow> None)"

subsection \<open>Steps of the server\<close>

text \<open>
  Between two suspension points the registry changes by one of these steps: a handler
  runs, or the SDK reports that a transport or a legacy stream closed. Every handler
  changes the registry in one synchronous stretch (a callback of the SDK, or the lines
  between two \<^verbatim>\<open>await\<close>s), so a handler counts as one step.
\<close>

datatype server_step =
    Post_mcp sdk_behaviour request
  | Get_mcp sdk_behaviour request
  | Delete_mcp onclose_behaviour request
  | Get_sse sdk_behaviour string
  | Post_messages sdk_behaviour request
  | Transport_closed transport
  | Sse_closed string

fun step :: "server_step \<Rightarrow> 'm registry \<Rightarrow> 'm registry" where
  "step (Post_mcp sdk req) reg = registry (post_mcp sdk req reg)"
| "step (Get_mcp sdk req) reg = registry (get_mcp sdk req reg)"
| "step (Delete_mcp oc req) reg = registry (delete_mcp oc req reg)"
| "step (Get_sse sdk sid) reg = registry (get_sse sdk sid reg)"
| "step (Post_messages sdk req) reg = registry (post_messages sdk req reg)"
| "step (Transport_closed t) reg = onclose_handler t reg"
| "step (Sse_closed sid) reg = sse_onclose sid reg"

fun run :: "server_step list \<Rightarrow> 'm registry \<Rightarrow> 'm registry" where
  "run [] reg = reg"
| "run (s # ss) reg = run ss (step s reg)"

text \<open>
  The session id a new session is initialized with comes from the \<^verbatim>\<open>sessionIdGenerator\<close>
  of the handler, so it is a result of \<^verbatim>\<open>randomUUID()\<close>.
\<close>

fun generated_ids_ok :: "server_step \<Rightarrow> bool" where
  "generated_ids_ok (Post_mcp sdk req) =
     (case initialized_with sdk of None \<Rightarrow> True | Some id' \<Rightarrow> randomUUID_result id')"
| "generated_ids_ok s = True"

text \<open>
  The session ids with a transport in \<^verbatim>\<open>transports.streamable\<close> (as own properties)
  are the session ids with an event store in \<^verbatim>\<open>eventStores\<close>.
\<close>

definition maps_agree :: "'m registry \<Rightarrow> bool" where
  "maps_agree reg = (dom (streamable reg) = dom (eventStores reg))"

section \<open>Event ids: round trip\<close>

lemma split_not_Nil: "split sep s \<noteq> []"
  by (induction s) (auto split: list.splits)

lemma hd_split: "hd (split sep s) = takeWhile (\<lambda>c. c \<noteq> sep) s"
  by (induction s) (auto split: list.splits simp: split_not_Nil)

lemma getStreamIdFromEventId_takeWhile:
  "getStreamIdFromEventId eventId = takeWhile (\<lambda>c. c \<noteq> CHR ''_'') eventId"
proof -
  have "split (CHR ''_'') eventId ! 0 = hd (split (CHR ''_'') eventId)"
    using split_not_Nil [of "CHR ''_''" eventId] by (simp add: hd_conv_nth)
  then show ?thesis
    using split_not_Nil [of "CHR ''_''" eventId] by (simp add: getStreamIdFromEventId_def hd_split)
qed

lemma getStreamId_of_prefixed:
  assumes "CHR ''_'' \<notin> set sid"
  shows "getStreamIdFromEventId (sid @ CHR ''_'' # rest) = sid"
  using assms by (simp add: getStreamIdFromEventId_takeWhile takeWhile_append)

text \<open>The decimal rendering is injective, and so is the id in the reading of the clock.\<close>

lemma show_nat_not_Nil: "show_nat n \<noteq> []"
  by (subst show_nat.simps) simp

lemma digit_inj:
  assumes "a < 10" "b < 10" "''0123456789'' ! a = ''0123456789'' ! b"
  shows "a = b"
proof -
  have "distinct ''0123456789''" by simp
  moreover have "a < length ''0123456789''" "b < length ''0123456789''" using assms by simp_all
  ultimately show ?thesis using assms(3) by (simp only: nth_eq_iff_index_eq)
qed

lemma show_nat_inj: "show_nat n = show_nat m \<Longrightarrow> n = m"
proof (induction n arbitrary: m rule: show_nat.induct)
  case (1 n)
  show ?case
  proof (cases "n < 10")
    case True
    then have n: "show_nat n = [''0123456789'' ! n]" by (subst show_nat.simps) simp
    show ?thesis
    proof (cases "m < 10")
      case m: True
      then have "show_nat m = [''0123456789'' ! m]" by (subst show_nat.simps) simp
      then show ?thesis using n "1.prems" True m digit_inj by simp
    next
      case False
      then have "show_nat m = show_nat (m div 10) @ [''0123456789'' ! (m mod 10)]"
        by (subst show_nat.simps) simp
      then have "length (show_nat m) \<ge> 2"
        using show_nat_not_Nil [of "m div 10"] by (cases "show_nat (m div 10)") simp_all
      then show ?thesis using n "1.prems" by simp
    qed
  next
    case False
    then have n: "show_nat n = show_nat (n div 10) @ [''0123456789'' ! (n mod 10)]"
      by (subst show_nat.simps) simp
    show ?thesis
    proof (cases "m < 10")
      case True
      then have "show_nat m = [''0123456789'' ! m]" by (subst show_nat.simps) simp
      moreover have "length (show_nat n) \<ge> 2"
        using n show_nat_not_Nil [of "n div 10"] by (cases "show_nat (n div 10)") simp_all
      ultimately show ?thesis using "1.prems" by simp
    next
      case m: False
      then have "show_nat m = show_nat (m div 10) @ [''0123456789'' ! (m mod 10)]"
        by (subst show_nat.simps) simp
      then have e: "show_nat (n div 10) = show_nat (m div 10)"
        and d: "''0123456789'' ! (n mod 10) = ''0123456789'' ! (m mod 10)"
        using n "1.prems" by simp_all
      have "n div 10 = m div 10" using "1.IH" [OF False e] .
      moreover have "n mod 10 = m mod 10" by (rule digit_inj [OF _ _ d]) simp_all
      ultimately show ?thesis by (metis div_mult_mod_eq)
    qed
  qed
qed

lemma generateEventId_inj:
  assumes "generateEventId sid t rnd = generateEventId sid t' rnd" and "0 \<le> t" and "0 \<le> t'"
  shows "t = t'"
proof -
  have "number_to_string t @ (''_'' @ rnd) = number_to_string t' @ (''_'' @ rnd)"
    using assms(1) by (simp add: generateEventId_def)
  then have "number_to_string t = number_to_string t'" by (simp only: append_same_eq)
  then have "show_nat (nat t) = show_nat (nat t')"
    using assms(2,3) by (simp add: number_to_string_def)
  then have "nat t = nat t'" by (rule show_nat_inj)
  then show ?thesis using assms(2,3) by simp
qed

text \<open>
  Claim C9. The id generated for a stream begins with the stream id followed by an
  underscore. For a stream id without underscore \<^verbatim>\<open>getStreamIdFromEventId\<close> gives the
  stream id back; for a stream id with an underscore it gives the part before the first
  underscore, which is not the stream id.
\<close>

theorem event_id_round_trip:
  "take (Suc (length sid)) (generateEventId sid now rnd) = sid @ ''_'' \<and>
   (CHR ''_'' \<notin> set sid \<longrightarrow> getStreamIdFromEventId (generateEventId sid now rnd) = sid) \<and>
   (CHR ''_'' \<in> set sid \<longrightarrow>
      getStreamIdFromEventId (generateEventId sid now rnd) = takeWhile (\<lambda>c. c \<noteq> CHR ''_'') sid \<and>
      getStreamIdFromEventId (generateEventId sid now rnd) \<noteq> sid)"
proof (intro conjI impI)
  show "take (Suc (length sid)) (generateEventId sid now rnd) = sid @ ''_''"
    by (simp add: generateEventId_def)
next
  assume "CHR ''_'' \<notin> set sid"
  then show "getStreamIdFromEventId (generateEventId sid now rnd) = sid"
    using getStreamId_of_prefixed [of sid] by (simp add: generateEventId_def)
next
  assume u: "CHR ''_'' \<in> set sid"
  then show t: "getStreamIdFromEventId (generateEventId sid now rnd) = takeWhile (\<lambda>c. c \<noteq> CHR ''_'') sid"
    using takeWhile_append1 [of "CHR ''_''" sid "\<lambda>c. c \<noteq> CHR ''_''"]
    by (simp add: getStreamIdFromEventId_takeWhile generateEventId_def)
  have "CHR ''_'' \<notin> set (takeWhile (\<lambda>c. c \<noteq> CHR ''_'') sid)"
    by (auto dest: set_takeWhileD)
  with u have "takeWhile (\<lambda>c. c \<noteq> CHR ''_'') sid \<noteq> sid"
    by metis
  with t show "getStreamIdFromEventId (generateEventId sid now rnd) \<noteq> sid"
    by simp
qed

theorem event_id_round_trip_witness:
  "CHR ''_'' \<notin> set ''s1'' \<and>
   generateEventId ''s1'' 1700000000000 ''k3j9x2ab'' = ''s1_1700000000000_k3j9x2ab'' \<and>
   getStreamIdFromEventId (generateEventId ''s1'' 1700000000000 ''k3j9x2ab'') = ''s1'' \<and>
   CHR ''_'' \<in> set ''a_b'' \<and>
   getStreamIdFromEventId (generateEventId ''a_b'' 1700000000000 ''k3j9x2ab'') = ''a''"
  using event_id_round_trip [of "''s1''" 1700000000000 "''k3j9x2ab''"]
    event_id_round_trip [of "''a_b''" 1700000000000 "''k3j9x2ab''"]
  by (simp add: generateEventId_def number_to_string_def show_nat.simps)

section \<open>The map of events and the eviction\<close>

lemma Map_set_keys: "fst ` set (Map_set k v m) = insert k (fst ` set m)"
  by (induction m) force+

lemma Map_set_distinct: "distinct (map fst m) \<Longrightarrow> distinct (map fst (Map_set k v m))"
  by (induction m) (auto simp: Map_set_keys)

lemma Map_set_map_of: "map_of (Map_set k v m) = (map_of m)(k \<mapsto> v)"
  by (induction m) auto

lemma Map_set_fresh: "k \<notin> fst ` set m \<Longrightarrow> Map_set k v m = m @ [(k, v)]"
  by (induction m) auto

lemma Map_set_entries: "distinct (map fst m) \<Longrightarrow> set (Map_set k v m) = insert (k, v) {x \<in> set m. fst x \<noteq> k}"
proof (induction m)
  case Nil
  then show ?case by simp
next
  case (Cons x m)
  obtain j d where x: "x = (j, d)" by (cases x)
  have "j \<notin> fst ` set m" using Cons.prems x by simp
  then have "\<And>y. y \<in> set m \<Longrightarrow> fst y \<noteq> j" by auto
  then show ?case using Cons x by auto
qed

lemma sweep_events:
  "fst (sweep now es evs counts) =
     filter (\<lambda>(i, e). i \<notin> fst ` {x \<in> set es. now - timestamp (snd x) > maxAge}) evs"
proof (induction es arbitrary: evs counts)
  case Nil
  then show ?case by simp
next
  case (Cons x es)
  obtain j d where x: "x = (j, d)" by (cases x)
  show ?case
  proof (cases "now - timestamp d > maxAge")
    case True
    have "fst (sweep now (x # es) evs counts) = fst (sweep now es (Map_delete j evs) counts)"
      using True x by simp
    also have "\<dots> = filter (\<lambda>(i, e). i \<notin> fst ` {x \<in> set es. now - timestamp (snd x) > maxAge}) (Map_delete j evs)"
      by (rule Cons.IH)
    also have "\<dots> = filter (\<lambda>(i, e). i \<notin> fst ` {y \<in> set (x # es). now - timestamp (snd y) > maxAge}) evs"
      using True x by (force simp: Map_delete_def intro!: filter_cong)
    finally show ?thesis .
  next
    case False
    have "fst (sweep now (x # es) evs counts) =
        fst (sweep now es evs (Map_set (streamId d) ((case Map_get (streamId d) counts of None \<Rightarrow> 0 | Some c \<Rightarrow> c) + 1) counts))"
      using False x by (simp add: Let_def)
    also have "\<dots> = filter (\<lambda>(i, e). i \<notin> fst ` {x \<in> set es. now - timestamp (snd x) > maxAge}) evs"
      by (rule Cons.IH)
    also have "\<dots> = filter (\<lambda>(i, e). i \<notin> fst ` {y \<in> set (x # es). now - timestamp (snd y) > maxAge}) evs"
      using False x by (auto intro!: filter_cong)
    finally show ?thesis .
  qed
qed

lemma sweep_events_distinct:
  assumes "distinct (map fst evs)"
  shows "fst (sweep now evs evs counts) = filter (\<lambda>(i, e). now - timestamp e \<le> maxAge) evs"
proof -
  have "(case x of (i, e) \<Rightarrow> i \<notin> fst ` {x \<in> set evs. now - timestamp (snd x) > maxAge}) =
        (case x of (i, e) \<Rightarrow> now - timestamp e \<le> maxAge)" if m: "x \<in> set evs" for x
  proof -
    obtain i e where x: "x = (i, e)" by (cases x)
    have u: "e' = e" if "(i, e') \<in> set evs" for e'
      using assms m that x eq_key_imp_eq_value by metis
    have "i \<in> fst ` {x \<in> set evs. now - timestamp (snd x) > maxAge} \<longleftrightarrow>
        (\<exists>e'. (i, e') \<in> set evs \<and> now - timestamp e' > maxAge)"
      by force
    also have "\<dots> \<longleftrightarrow> now - timestamp e > maxAge"
      using u m x by blast
    finally show ?thesis using x by auto
  qed
  then show ?thesis
    unfolding sweep_events by (rule filter_cong [OF refl])
qed

lemma count_of_Map_set: "count_of (Map_set k v m) s = (if s = k then v else count_of m s)"
  by (simp add: count_of_def Map_set_map_of)

lemma sweep_counts:
  assumes "distinct (map fst counts)"
  shows "distinct (map fst (snd (sweep now es evs counts))) \<and>
     (\<forall>s. count_of (snd (sweep now es evs counts)) s =
        count_of counts s + length (filter (\<lambda>(i, e). now - timestamp e \<le> maxAge \<and> streamId e = s) es)) \<and>
     fst ` set (snd (sweep now es evs counts)) =
        fst ` set counts \<union> streamId ` snd ` {x \<in> set es. now - timestamp (snd x) \<le> maxAge}"
  using assms
proof (induction es arbitrary: evs counts)
  case Nil
  then show ?case by simp
next
  case (Cons x es)
  obtain j d where x: "x = (j, d)" by (cases x)
  show ?case
  proof (cases "now - timestamp d > maxAge")
    case True
    then show ?thesis using Cons.IH [OF Cons.prems, of "Map_delete j evs"] x by auto
  next
    case False
    define n where "n = (case Map_get (streamId d) counts of None \<Rightarrow> 0 | Some c \<Rightarrow> c) + 1"
    define c' where "c' = Map_set (streamId d) n counts"
    have n: "n = count_of counts (streamId d) + 1"
      by (simp add: n_def count_of_def Map_get_def)
    have d: "distinct (map fst c')" unfolding c'_def using Cons.prems by (rule Map_set_distinct)
    have s: "sweep now (x # es) evs counts = sweep now es evs c'"
      using False x by (simp add: Let_def c'_def n_def)
    have c: "\<And>s. count_of c' s = count_of counts s + (if s = streamId d then 1 else 0)"
      by (simp add: c'_def count_of_Map_set n)
    have k: "fst ` set c' = insert (streamId d) (fst ` set counts)"
      by (simp add: c'_def Map_set_keys)
    note ih = Cons.IH [OF d, of evs]
    have 1: "distinct (map fst (snd (sweep now (x # es) evs counts)))"
      unfolding s using ih by blast
    have 2: "count_of (snd (sweep now (x # es) evs counts)) s =
        count_of counts s + length (filter (\<lambda>(i, e). now - timestamp e \<le> maxAge \<and> streamId e = s) (x # es))" for s
      unfolding s using ih False x by (simp add: c)
    have 3: "fst ` set (snd (sweep now (x # es) evs counts)) =
        fst ` set counts \<union> streamId ` snd ` {y \<in> set (x # es). now - timestamp (snd y) \<le> maxAge}"
    proof -
      have "{y \<in> set (x # es). now - timestamp (snd y) \<le> maxAge} =
          insert x {y \<in> set es. now - timestamp (snd y) \<le> maxAge}"
        using False x by auto
      then show ?thesis unfolding s using ih x by (simp add: k)
    qed
    show ?thesis using 1 2 3 by blast
  qed
qed


lemma remove_oldest_eq:
  "n \<le> length xs \<Longrightarrow>
     remove_oldest n xs evs = Some (filter (\<lambda>(i, e). i \<notin> fst ` set (take n xs)) evs)"
proof (induction n arbitrary: xs evs)
  case 0
  then show ?case by simp
next
  case (Suc n)
  then obtain x xs' where xs: "xs = x # xs'" by (cases xs) auto
  have "remove_oldest (Suc n) xs evs = remove_oldest n xs' (Map_delete (fst x) evs)"
    by (simp add: xs)
  also have "\<dots> = Some (filter (\<lambda>(i, e). i \<notin> fst ` set (take n xs')) (Map_delete (fst x) evs))"
    using Suc.prems xs by (intro Suc.IH) simp
  also have "filter (\<lambda>(i, e). i \<notin> fst ` set (take n xs')) (Map_delete (fst x) evs) =
      filter (\<lambda>(i, e). i \<notin> fst ` set (take (Suc n) xs)) evs"
    by (auto simp: Map_delete_def xs intro!: filter_cong)
  finally show ?case .
qed

lemma oldest_surplus_subset: "oldest_surplus sid evs \<subseteq> fst ` set (stream_events sid evs)"
  unfolding oldest_surplus_def
  by (rule image_mono) (metis set_take_subset set_sort)

lemma other_stream_not_surplus:
  assumes "distinct (map fst evs)" "(i, e) \<in> set evs" "streamId e \<noteq> sid"
  shows "i \<notin> oldest_surplus sid evs"
proof
  assume "i \<in> oldest_surplus sid evs"
  then obtain e' where "(i, e') \<in> set (stream_events sid evs)"
    using oldest_surplus_subset [of sid evs] by auto
  then have "(i, e') \<in> set evs" "streamId e' = sid"
    by (auto simp: stream_events_def)
  with assms show False
    using eq_key_imp_eq_value by metis
qed

lemma stream_events_filter_surplus:
  assumes "distinct (map fst evs)" "t \<noteq> sid"
  shows "stream_events t (filter (\<lambda>(i, e). i \<notin> oldest_surplus sid evs) evs) = stream_events t evs"
proof -
  have "stream_events t (filter (\<lambda>(i, e). i \<notin> oldest_surplus sid evs) evs) =
      filter (\<lambda>x. (case x of (i, e) \<Rightarrow> i \<notin> oldest_surplus sid evs) \<and> (case x of (i, e) \<Rightarrow> streamId e = t)) evs"
    by (simp add: stream_events_def)
  also have "\<dots> = filter (\<lambda>(i, e). streamId e = t) evs"
    using other_stream_not_surplus [OF assms(1)] assms(2)
    by (intro filter_cong refl) auto
  finally show ?thesis by (simp add: stream_events_def)
qed

lemma evict_eq:
  assumes "distinct (map fst cs)" "distinct (map fst evs)"
    and "\<And>s c. (s, c) \<in> set cs \<Longrightarrow> c = length (stream_events s evs)"
  shows "evict cs evs =
     Some (filter (\<lambda>(i, e). streamId e \<in> fst ` set cs \<longrightarrow> i \<notin> oldest_surplus (streamId e) evs) evs)"
  using assms
proof (induction cs arbitrary: evs)
  case Nil
  then show ?case by simp
next
  case (Cons x cs)
  obtain s c where x: "x = (s, c)" by (cases x)
  define evs1 where "evs1 = filter (\<lambda>(i, e). i \<notin> oldest_surplus s evs) evs"
  have c: "c = length (stream_events s evs)"
    using Cons.prems(3) x by simp
  have step: "evict (x # cs) evs = evict cs evs1"
  proof (cases "c > maxEventsPerStream")
    case True
    have "remove_oldest (c - maxEventsPerStream)
        (sort_key (\<lambda>(i, e). timestamp e) (stream_events s evs)) evs = Some evs1"
      unfolding evs1_def oldest_surplus_def c
      by (rule remove_oldest_eq) simp
    then show ?thesis using True x by (simp add: stream_events_def)
  next
    case False
    then have "oldest_surplus s evs = {}"
      by (simp add: oldest_surplus_def c)
    then have "evs1 = evs" by (simp add: evs1_def)
    then show ?thesis using False x by simp
  qed
  have d1: "distinct (map fst evs1)"
    unfolding evs1_def using Cons.prems(2) by (simp add: distinct_map_filter)
  have s_notin: "s \<notin> fst ` set cs"
    using Cons.prems(1) x by auto
  have same: "stream_events t evs1 = stream_events t evs" if "t \<noteq> s" for t
    unfolding evs1_def using Cons.prems(2) that by (rule stream_events_filter_surplus)
  have surplus_same: "oldest_surplus t evs1 = oldest_surplus t evs" if "t \<noteq> s" for t
    by (simp add: oldest_surplus_def same [OF that])
  have ih: "evict cs evs1 =
     Some (filter (\<lambda>(i, e). streamId e \<in> fst ` set cs \<longrightarrow> i \<notin> oldest_surplus (streamId e) evs1) evs1)"
  proof (rule Cons.IH)
    show "distinct (map fst cs)" using Cons.prems(1) by simp
    show "distinct (map fst evs1)" by (rule d1)
    fix t n assume tn: "(t, n) \<in> set cs"
    then have "t \<noteq> s" using s_notin by force
    then show "n = length (stream_events t evs1)"
      using Cons.prems(3) [of t n] tn by (simp add: same)
  qed
  have "filter (\<lambda>(i, e). streamId e \<in> fst ` set cs \<longrightarrow> i \<notin> oldest_surplus (streamId e) evs1) evs1 =
      filter (\<lambda>y. (case y of (i, e) \<Rightarrow> i \<notin> oldest_surplus s evs) \<and>
                  (case y of (i, e) \<Rightarrow> streamId e \<in> fst ` set cs \<longrightarrow> i \<notin> oldest_surplus (streamId e) evs1)) evs"
    by (simp add: evs1_def)
  also have "\<dots> = filter (\<lambda>(i, e). streamId e \<in> fst ` set (x # cs) \<longrightarrow> i \<notin> oldest_surplus (streamId e) evs) evs"
  proof (rule filter_cong [OF refl])
    fix y assume y: "y \<in> set evs"
    obtain i e where ie: "y = (i, e)" by (cases y)
    show "((case y of (i, e) \<Rightarrow> i \<notin> oldest_surplus s evs) \<and>
           (case y of (i, e) \<Rightarrow> streamId e \<in> fst ` set cs \<longrightarrow> i \<notin> oldest_surplus (streamId e) evs1)) =
          (case y of (i, e) \<Rightarrow> streamId e \<in> fst ` set (x # cs) \<longrightarrow> i \<notin> oldest_surplus (streamId e) evs)"
    proof (cases "streamId e = s")
      case True
      then show ?thesis using s_notin ie x by simp
    next
      case False
      then have "i \<notin> oldest_surplus s evs"
        using other_stream_not_surplus [OF Cons.prems(2)] y ie by blast
      then show ?thesis using False ie x by (simp add: surplus_same)
    qed
  qed
  finally show ?case using step ih by simp
qed

lemma cleanupOldEvents_eq:
  assumes "distinct (map fst evs)"
  shows "cleanupOldEvents now evs =
     Some (filter (\<lambda>(i, e). i \<notin> oldest_surplus (streamId e)
                                   (filter (\<lambda>(i, e). now - timestamp e \<le> maxAge) evs))
             (filter (\<lambda>(i, e). now - timestamp e \<le> maxAge) evs))"
proof -
  define live where "live = filter (\<lambda>(i, e). now - timestamp e \<le> maxAge) evs"
  define counts where "counts = snd (sweep now evs evs [])"
  have sw: "sweep now evs evs [] = (live, counts)"
    using sweep_events_distinct [OF assms, of now "[]"] by (simp add: live_def counts_def prod_eq_iff)
  have cnt: "distinct (map fst counts)"
      "\<And>s. count_of counts s = length (filter (\<lambda>(i, e). now - timestamp e \<le> maxAge \<and> streamId e = s) evs)"
      "fst ` set counts = streamId ` snd ` {x \<in> set evs. now - timestamp (snd x) \<le> maxAge}"
    using sweep_counts [of "[]" now evs evs] by (simp_all add: counts_def count_of_def)
  have len: "length (stream_events s live) =
      length (filter (\<lambda>(i, e). now - timestamp e \<le> maxAge \<and> streamId e = s) evs)" for s
  proof -
    have "stream_events s live = filter (\<lambda>(i, e). now - timestamp e \<le> maxAge \<and> streamId e = s) evs"
      unfolding stream_events_def live_def by (auto intro!: filter_cong)
    then show ?thesis by simp
  qed
  have ev: "evict counts live =
      Some (filter (\<lambda>(i, e). streamId e \<in> fst ` set counts \<longrightarrow> i \<notin> oldest_surplus (streamId e) live) live)"
  proof (rule evict_eq)
    show "distinct (map fst counts)" by (rule cnt(1))
    show "distinct (map fst live)" unfolding live_def using assms by (simp add: distinct_map_filter)
    fix s c assume "(s, c) \<in> set counts"
    then have "map_of counts s = Some c" using cnt(1) by simp
    then have "count_of counts s = c" by (simp add: count_of_def)
    then show "c = length (stream_events s live)" using cnt(2) [of s] len [of s] by simp
  qed
  have "filter (\<lambda>(i, e). streamId e \<in> fst ` set counts \<longrightarrow> i \<notin> oldest_surplus (streamId e) live) live =
      filter (\<lambda>(i, e). i \<notin> oldest_surplus (streamId e) live) live"
  proof (rule filter_cong [OF refl])
    fix y assume y: "y \<in> set live"
    obtain i e where ie: "y = (i, e)" by (cases y)
    have "streamId e \<in> fst ` set counts"
      unfolding cnt(3) using y ie by (force simp: live_def)
    then show "(case y of (i, e) \<Rightarrow> streamId e \<in> fst ` set counts \<longrightarrow> i \<notin> oldest_surplus (streamId e) live) =
        (case y of (i, e) \<Rightarrow> i \<notin> oldest_surplus (streamId e) live)"
      using ie by simp
  qed
  then show ?thesis
    using ev sw by (simp add: cleanupOldEvents_def live_def)
qed

section \<open>Eviction: the retention window and the cap\<close>

lemma within_window_distinct: "distinct (map fst evs) \<Longrightarrow> distinct (map fst (within_window now evs))"
  by (simp add: within_window_def distinct_map_filter)

lemma cleanupOldEvents_window:
  assumes "distinct (map fst evs)"
  shows "cleanupOldEvents now evs =
     Some (filter (\<lambda>(i, e). i \<notin> oldest_surplus (streamId e) (within_window now evs))
             (within_window now evs))"
  unfolding within_window_def using assms by (rule cleanupOldEvents_eq)

lemma stream_events_distinct: "distinct (map fst evs) \<Longrightarrow> distinct (map fst (stream_events s evs))"
  by (simp add: stream_events_def distinct_map_filter)

lemma stream_events_after_eviction:
  "stream_events s (filter (\<lambda>(i, e). i \<notin> oldest_surplus (streamId e) live) live) =
     filter (\<lambda>(i, e). i \<notin> oldest_surplus s live) (stream_events s live)"
proof -
  have "filter (\<lambda>x. (case x of (i, e) \<Rightarrow> i \<notin> oldest_surplus (streamId e) live) \<and> (case x of (i, e) \<Rightarrow> streamId e = s)) live =
      filter (\<lambda>x. (case x of (i, e) \<Rightarrow> streamId e = s) \<and> (case x of (i, e) \<Rightarrow> i \<notin> oldest_surplus s live)) live"
    by (rule filter_cong [OF refl]) auto
  then show ?thesis by (simp add: stream_events_def)
qed

lemma filter_not_taken:
  assumes "distinct (map fst ys)"
  shows "filter (\<lambda>(i, e). i \<notin> fst ` set (take n ys)) ys = drop n ys"
proof -
  have d: "distinct (map fst (take n ys) @ map fst (drop n ys))"
    using assms by (metis append_take_drop_id map_append)
  have 1: "filter (\<lambda>(i, e). i \<notin> fst ` set (take n ys)) (take n ys) = []"
    by (force simp: filter_empty_conv)
  have "\<forall>x \<in> set (drop n ys). fst x \<notin> fst ` set (take n ys)"
    using d by (auto simp del: map_append)
  then have 2: "filter (\<lambda>(i, e). i \<notin> fst ` set (take n ys)) (drop n ys) = drop n ys"
    by (force simp: filter_id_conv)
  have "filter (\<lambda>(i, e). i \<notin> fst ` set (take n ys)) (take n ys @ drop n ys) = drop n ys"
    unfolding filter_append 1 2 by simp
  then show ?thesis by simp
qed

lemma length_after_eviction:
  assumes "distinct (map fst live)"
  shows "length (filter (\<lambda>(i, e). i \<notin> oldest_surplus s live) (stream_events s live)) =
     min maxEventsPerStream (length (stream_events s live))"
proof -
  define xs where "xs = stream_events s live"
  define ys where "ys = sort_key (\<lambda>(i, e). timestamp e) xs"
  define n where "n = length xs - maxEventsPerStream"
  have K: "oldest_surplus s live = fst ` set (take n ys)"
    by (simp add: oldest_surplus_def xs_def ys_def n_def)
  have dx: "distinct (map fst xs)"
    unfolding xs_def using assms by (rule stream_events_distinct)
  have "distinct (map fst ys)"
    unfolding ys_def using dx by (metis distinct_map distinct_sort set_sort)
  then have f: "filter (\<lambda>(i, e). i \<notin> fst ` set (take n ys)) ys = drop n ys"
    by (rule filter_not_taken)
  have "length (filter (\<lambda>(i, e). i \<notin> fst ` set (take n ys)) xs) =
      length (sort_key (\<lambda>(i, e). timestamp e) (filter (\<lambda>(i, e). i \<notin> fst ` set (take n ys)) xs))"
    by simp
  also have "\<dots> = length (filter (\<lambda>(i, e). i \<notin> fst ` set (take n ys)) ys)"
    unfolding ys_def by (simp only: filter_sort)
  also have "\<dots> = length ys - n" by (simp add: f)
  also have "\<dots> = min maxEventsPerStream (length xs)"
    by (simp add: ys_def n_def)
  finally show ?thesis by (simp add: K xs_def)
qed

lemma oldest_removed_first:
  assumes "distinct (map fst live)"
    and "x \<in> set (stream_events s live)" and "fst x \<in> oldest_surplus s live"
    and "y \<in> set (stream_events s live)" and "fst y \<notin> oldest_surplus s live"
  shows "timestamp (snd x) \<le> timestamp (snd y)"
proof -
  define xs where "xs = stream_events s live"
  define ys where "ys = sort_key (\<lambda>(i, e). timestamp e) xs"
  define n where "n = length xs - maxEventsPerStream"
  have K: "oldest_surplus s live = fst ` set (take n ys)"
    by (simp add: oldest_surplus_def xs_def ys_def n_def)
  have dx: "distinct (map fst xs)"
    unfolding xs_def using assms(1) by (rule stream_events_distinct)
  have sy: "set ys = set xs" by (simp add: ys_def)
  obtain x' where x': "x' \<in> set (take n ys)" "fst x' = fst x"
    using assms(3) K by auto
  have "x' \<in> set ys" using x'(1) by (rule in_set_takeD)
  then have "x' \<in> set xs" using sy by simp
  moreover have "x \<in> set xs" using assms(2) by (simp add: xs_def)
  moreover have "inj_on fst (set xs)" using dx by (simp add: distinct_map)
  ultimately have "x' = x"
    using x'(2) by (auto dest: inj_onD)
  then have xt: "x \<in> set (take n ys)" using x'(1) by simp
  have "y \<in> set ys" using assms(4) sy by (simp add: xs_def)
  then have "y \<in> set (take n ys) \<or> y \<in> set (drop n ys)"
    by (metis Un_iff append_take_drop_id set_append)
  moreover have "y \<notin> set (take n ys)" using assms(5) K by auto
  ultimately have yd: "y \<in> set (drop n ys)" by blast
  have "sorted (map (\<lambda>(i, e). timestamp e) ys)"
    unfolding ys_def by (rule sorted_sort_key)
  then have "sorted (map (\<lambda>(i, e). timestamp e) (take n ys) @ map (\<lambda>(i, e). timestamp e) (drop n ys))"
    by (metis append_take_drop_id map_append)
  then have "\<forall>a \<in> set (take n ys). \<forall>b \<in> set (drop n ys).
      (case a of (i, e) \<Rightarrow> timestamp e) \<le> (case b of (i, e) \<Rightarrow> timestamp e)"
    by (auto simp: sorted_append simp del: map_append)
  then show ?thesis using xt yd by (auto simp: case_prod_unfold)
qed


lemma storeEvent_eq:
  assumes "distinct (map fst evs)"
  shows "storeEvent sid msg t_id rnd t_ts t_now evs =
     Some (generateEventId sid t_id rnd,
           filter (\<lambda>(i, e). i \<notin> oldest_surplus (streamId e)
               (within_window t_now (Map_set (generateEventId sid t_id rnd)
                  \<lparr>streamId = sid, message = msg, timestamp = t_ts\<rparr> evs)))
             (within_window t_now (Map_set (generateEventId sid t_id rnd)
                  \<lparr>streamId = sid, message = msg, timestamp = t_ts\<rparr> evs)))"
proof -
  have "distinct (map fst (Map_set (generateEventId sid t_id rnd)
      \<lparr>streamId = sid, message = msg, timestamp = t_ts\<rparr> evs))"
    using assms by (rule Map_set_distinct)
  then show ?thesis
    by (simp add: storeEvent_def Let_def cleanupOldEvents_window)
qed

lemma replay_loop_subset:
  "c \<in> set (replay_loop sid marker found xs) \<Longrightarrow> \<exists>e. (fst c, e) \<in> set xs \<and> message e = snd c"
proof (induction xs arbitrary: found)
  case Nil
  then show ?case by simp
next
  case (Cons x xs)
  obtain j d where x: "x = (j, d)" by (cases x)
  from Cons.prems x have "c = (j, message d) \<or> (\<exists>f. c \<in> set (replay_loop sid marker f xs))"
    by (auto split: if_splits)
  then show ?case
  proof
    assume "c = (j, message d)"
    then show ?thesis using x by auto
  next
    assume "\<exists>f. c \<in> set (replay_loop sid marker f xs)"
    then obtain f where "c \<in> set (replay_loop sid marker f xs)" by blast
    from Cons.IH [OF this] show ?thesis by auto
  qed
qed

lemma replay_delivers_stored:
  assumes "c \<in> set (snd (replayEventsAfter ckey marker evs))"
  shows "\<exists>e. (fst c, e) \<in> set evs \<and> message e = snd c"
proof -
  have "c \<in> set (replay_loop (getStreamIdFromEventId marker) marker False (sort_key (\<lambda>(i, e). ckey i) evs))"
    using assms by (auto simp: replayEventsAfter_def Let_def split: if_splits)
  from replay_loop_subset [OF this] show ?thesis by simp
qed

text \<open>One call: it returns, and the store after it holds nothing older than \<open>maxAge\<close>.\<close>

lemma storeEvent_within_window:
  assumes "distinct (map fst evs)"
  shows "\<exists>evs'. storeEvent sid msg t_id rnd t_ts t_now evs = Some (generateEventId sid t_id rnd, evs') \<and>
     (\<forall>x \<in> set evs'. t_now - timestamp (snd x) \<le> maxAge) \<and>
     (\<forall>x \<in> set evs. t_now - timestamp (snd x) > maxAge \<longrightarrow> x \<notin> set evs') \<and>
     (\<forall>c \<in> set (snd (replayEventsAfter ckey marker evs')).
        \<exists>e. (fst c, e) \<in> set evs' \<and> message e = snd c \<and> t_now - timestamp e \<le> maxAge)"
proof -
  define live where "live = within_window t_now (Map_set (generateEventId sid t_id rnd)
      \<lparr>streamId = sid, message = msg, timestamp = t_ts\<rparr> evs)"
  define evs' where "evs' = filter (\<lambda>(i, e). i \<notin> oldest_surplus (streamId e) live) live"
  have st: "storeEvent sid msg t_id rnd t_ts t_now evs = Some (generateEventId sid t_id rnd, evs')"
    unfolding evs'_def live_def using assms by (rule storeEvent_eq)
  have young: "\<forall>x \<in> set evs'. t_now - timestamp (snd x) \<le> maxAge"
    by (auto simp: evs'_def live_def within_window_def)
  then have gone: "\<forall>x \<in> set evs. t_now - timestamp (snd x) > maxAge \<longrightarrow> x \<notin> set evs'"
    by fastforce
  have "\<exists>e. (fst c, e) \<in> set evs' \<and> message e = snd c \<and> t_now - timestamp e \<le> maxAge"
    if c: "c \<in> set (snd (replayEventsAfter ckey marker evs'))" for c
  proof -
    obtain e where "(fst c, e) \<in> set evs'" "message e = snd c"
      using replay_delivers_stored [OF c] by blast
    then show ?thesis using young by fastforce
  qed
  with st young gone show ?thesis by blast
qed

lemma filter_key_absent:
  assumes "k \<notin> fst ` set m"
  shows "filter (\<lambda>(i, e). i \<noteq> k) m = m"
  using assms by (force simp: filter_id_conv)

lemma stream_events_Map_set_other:
  assumes "s \<noteq> streamId ev" and "distinct (map fst m)"
  shows "stream_events s (Map_set k ev m) = filter (\<lambda>(i, e). i \<noteq> k) (stream_events s m)"
  using assms
proof (induction m)
  case Nil
  then show ?case by (simp add: stream_events_def)
next
  case (Cons x m)
  obtain j d where x: "x = (j, d)" by (cases x)
  show ?case
  proof (cases "j = k")
    case True
    have "k \<notin> fst ` set m" using Cons.prems(2) x True by simp
    then have "k \<notin> fst ` set (stream_events s m)" by (auto simp: stream_events_def)
    then have "filter (\<lambda>(i, e). i \<noteq> k) (stream_events s m) = stream_events s m"
      by (rule filter_key_absent)
    then show ?thesis
      using True x Cons.prems(1) by (simp add: stream_events_def)
  next
    case False
    then show ?thesis using Cons x by (simp add: stream_events_def)
  qed
qed

lemma stream_events_within_window:
  "stream_events s (within_window now evs) = within_window now (stream_events s evs)"
proof -
  have "filter (\<lambda>x. (case x of (i, e) \<Rightarrow> now - timestamp e \<le> maxAge) \<and> (case x of (i, e) \<Rightarrow> streamId e = s)) evs =
      filter (\<lambda>x. (case x of (i, e) \<Rightarrow> streamId e = s) \<and> (case x of (i, e) \<Rightarrow> now - timestamp e \<le> maxAge)) evs"
    by (rule filter_cong [OF refl]) auto
  then show ?thesis by (simp add: stream_events_def within_window_def)
qed

text \<open>
  Claim C2, as amended. A \<^verbatim>\<open>storeEvent\<close> call always returns. After it every stream
  holds as many events as it has within the retention window, the new event included,
  but at most the cap of 1000: exactly the cap when more than that are within the
  window. What a stream keeps are events it had within the window, in their order, and
  every event of the stream that the cap removes is at most as recent (by timestamp) as
  every event the stream keeps. A stream other than the one stored to that is within
  the cap keeps all its events within the window (but for an entry replaced under the
  id of the new event): the cap of one stream removes nothing from another.
\<close>

theorem eviction_bound:
  assumes "distinct (map fst evs)"
  shows "\<exists>evs'.
     storeEvent sid msg t_id rnd t_ts t_now evs = Some (generateEventId sid t_id rnd, evs') \<and>
     (\<forall>s. length (stream_events s evs') =
        min maxEventsPerStream
          (length (stream_events s (within_window t_now
             (Map_set (generateEventId sid t_id rnd) \<lparr>streamId = sid, message = msg, timestamp = t_ts\<rparr> evs))))) \<and>
     (\<forall>s. stream_events s evs' =
        filter (\<lambda>x. x \<in> set evs') (stream_events s (within_window t_now
             (Map_set (generateEventId sid t_id rnd) \<lparr>streamId = sid, message = msg, timestamp = t_ts\<rparr> evs)))) \<and>
     (\<forall>s. \<forall>x \<in> set (stream_events s (within_window t_now
             (Map_set (generateEventId sid t_id rnd) \<lparr>streamId = sid, message = msg, timestamp = t_ts\<rparr> evs))).
        \<forall>y \<in> set (stream_events s evs'). x \<notin> set evs' \<longrightarrow> timestamp (snd x) \<le> timestamp (snd y)) \<and>
     (\<forall>s. s \<noteq> sid \<longrightarrow>
        length (within_window t_now (filter (\<lambda>(i, e). i \<noteq> generateEventId sid t_id rnd) (stream_events s evs)))
          \<le> maxEventsPerStream \<longrightarrow>
        stream_events s evs' =
          within_window t_now (filter (\<lambda>(i, e). i \<noteq> generateEventId sid t_id rnd) (stream_events s evs)))"
proof -
  define eid where "eid = generateEventId sid t_id rnd"
  define ev where "ev = \<lparr>streamId = sid, message = msg, timestamp = t_ts\<rparr>"
  define live where "live = within_window t_now (Map_set eid ev evs)"
  define evs' where "evs' = filter (\<lambda>(i, e). i \<notin> oldest_surplus (streamId e) live) live"
  have st: "storeEvent sid msg t_id rnd t_ts t_now evs = Some (eid, evs')"
    unfolding evs'_def live_def eid_def ev_def using assms by (rule storeEvent_eq)
  have dl: "distinct (map fst live)"
    unfolding live_def using assms by (intro within_window_distinct Map_set_distinct)
  have se: "stream_events s evs' = filter (\<lambda>(i, e). i \<notin> oldest_surplus s live) (stream_events s live)" for s
    unfolding evs'_def by (rule stream_events_after_eviction)
  have len: "length (stream_events s evs') = min maxEventsPerStream (length (stream_events s live))" for s
    unfolding se using dl by (rule length_after_eviction)
  have mem: "x \<in> set evs' \<longleftrightarrow> fst x \<notin> oldest_surplus s live" if "x \<in> set (stream_events s live)" for x s
    using that by (auto simp: evs'_def stream_events_def)
  have sub: "stream_events s evs' = filter (\<lambda>x. x \<in> set evs') (stream_events s live)" for s
  proof -
    have "filter (\<lambda>(i, e). i \<notin> oldest_surplus s live) (stream_events s live) =
        filter (\<lambda>x. x \<in> set evs') (stream_events s live)"
      by (rule filter_cong [OF refl]) (use mem in \<open>auto simp: case_prod_unfold\<close>)
    then show ?thesis by (simp add: se)
  qed
  have old: "timestamp (snd x) \<le> timestamp (snd y)"
    if "x \<in> set (stream_events s live)" "y \<in> set (stream_events s evs')" "x \<notin> set evs'" for s x y
  proof -
    have y: "y \<in> set (stream_events s live)" "y \<in> set evs'"
      using that(2) by (auto simp: sub)
    show ?thesis
      using dl that(1) _ y(1)
    proof (rule oldest_removed_first)
      show "fst x \<in> oldest_surplus s live" using mem [OF that(1)] that(3) by simp
      show "fst y \<notin> oldest_surplus s live" using mem [OF y(1)] y(2) by simp
    qed
  qed
  have other: "stream_events s evs' = within_window t_now (filter (\<lambda>(i, e). i \<noteq> eid) (stream_events s evs))"
    if "s \<noteq> sid"
      "length (within_window t_now (filter (\<lambda>(i, e). i \<noteq> eid) (stream_events s evs))) \<le> maxEventsPerStream"
    for s
  proof -
    have sl: "stream_events s live = within_window t_now (filter (\<lambda>(i, e). i \<noteq> eid) (stream_events s evs))"
      unfolding live_def stream_events_within_window
      using that(1) assms by (simp add: stream_events_Map_set_other ev_def)
    then have "length (stream_events s live) - maxEventsPerStream = 0"
      using that(2) by simp
    then have "oldest_surplus s live = {}"
      by (simp add: oldest_surplus_def)
    then show ?thesis by (simp add: se sl)
  qed
  show ?thesis
    using st len sub old other
    unfolding eid_def [symmetric] ev_def [symmetric] live_def [symmetric]
    by blast
qed


theorem eviction_bound_witness:
  "distinct (map fst
     (map (\<lambda>n. (generateEventId ''s'' (1700000000000 + int n) ''zk3j9x2a'',
                 \<lparr>streamId = ''s'', message = n, timestamp = 1700000000000 + int n\<rparr>)) [0..<1000])) \<and>
   map_option (\<lambda>r. length (stream_events ''s'' (snd r)))
     (storeEvent ''s'' 1000 1700000001000 ''zk3j9x2a'' 1700000001000 1700000001000
        (map (\<lambda>n. (generateEventId ''s'' (1700000000000 + int n) ''zk3j9x2a'',
                    \<lparr>streamId = ''s'', message = n, timestamp = 1700000000000 + int n\<rparr>)) [0..<1000]))
     = Some 1000"
  (is "distinct (map fst ?evs) \<and> _")
proof -
  let ?k = "generateEventId ''s'' 1700000001000 ''zk3j9x2a''"
  let ?v = "\<lparr>streamId = ''s'', message = 1000::nat, timestamp = 1700000001000\<rparr>"
  have keys: "map fst ?evs = map (\<lambda>n. generateEventId ''s'' (1700000000000 + int n) ''zk3j9x2a'') [0..<1000]"
    by simp
  have "inj_on (\<lambda>n. generateEventId ''s'' (1700000000000 + int n) ''zk3j9x2a'') (set [0..<1000])"
    by (rule inj_onI) (auto dest: generateEventId_inj)
  then have d: "distinct (map fst ?evs)"
    unfolding keys by (simp add: distinct_map)
  have "?k \<noteq> generateEventId ''s'' (1700000000000 + int n) ''zk3j9x2a''" if "n < 1000" for n
  proof
    assume "?k = generateEventId ''s'' (1700000000000 + int n) ''zk3j9x2a''"
    then have "(1700000001000 :: int) = 1700000000000 + int n"
      by (rule generateEventId_inj) simp_all
    then show False using that by simp
  qed
  then have "?k \<notin> fst ` set ?evs"
    by (auto simp: image_iff)
  then have m: "Map_set ?k ?v ?evs = ?evs @ [(?k, ?v)]"
    by (rule Map_set_fresh)
  have w: "within_window 1700000001000 (?evs @ [(?k, ?v)]) = ?evs @ [(?k, ?v)]"
    by (auto simp: within_window_def maxAge_def filter_id_conv)
  have s: "stream_events ''s'' (?evs @ [(?k, ?v)]) = ?evs @ [(?k, ?v)]"
    by (auto simp: stream_events_def filter_id_conv)
  obtain evs' where st: "storeEvent ''s'' 1000 1700000001000 ''zk3j9x2a'' 1700000001000 1700000001000 ?evs
        = Some (?k, evs')"
    and len: "length (stream_events ''s'' evs') =
        min maxEventsPerStream (length (stream_events ''s'' (within_window 1700000001000 (Map_set ?k ?v ?evs))))"
    using eviction_bound [OF d, of "''s''" 1000 1700000001000 "''zk3j9x2a''" 1700000001000 1700000001000]
    by blast
  have "length (stream_events ''s'' evs') = 1000"
    unfolding len m w s by (simp add: maxEventsPerStream_def)
  then show ?thesis using d st by simp
qed

text \<open>A small run: a stream within the cap and the window keeps its events, and so does the other stream.\<close>

lemma storeEvent_two_streams:
  "distinct (map fst
     [(''s_1700000000000_zk3j9x2a'', \<lparr>streamId = ''s'', message = ''m1'', timestamp = 1700000000000\<rparr>),
      (''t_1700000000001_q7'', \<lparr>streamId = ''t'', message = ''n1'', timestamp = 1700000000001\<rparr>)]) \<and>
   storeEvent ''s'' ''m2'' 1700000000002 ''0c5d'' 1700000000002 1700000000002
     [(''s_1700000000000_zk3j9x2a'', \<lparr>streamId = ''s'', message = ''m1'', timestamp = 1700000000000\<rparr>),
      (''t_1700000000001_q7'', \<lparr>streamId = ''t'', message = ''n1'', timestamp = 1700000000001\<rparr>)]
     = Some (''s_1700000000002_0c5d'',
         [(''s_1700000000000_zk3j9x2a'', \<lparr>streamId = ''s'', message = ''m1'', timestamp = 1700000000000\<rparr>),
          (''t_1700000000001_q7'', \<lparr>streamId = ''t'', message = ''n1'', timestamp = 1700000000001\<rparr>),
          (''s_1700000000002_0c5d'', \<lparr>streamId = ''s'', message = ''m2'', timestamp = 1700000000002\<rparr>)]) \<and>
   length (stream_events ''s''
         [(''s_1700000000000_zk3j9x2a'', \<lparr>streamId = ''s'', message = ''m1'', timestamp = 1700000000000\<rparr>),
          (''t_1700000000001_q7'', \<lparr>streamId = ''t'', message = ''n1'', timestamp = 1700000000001\<rparr>),
          (''s_1700000000002_0c5d'', \<lparr>streamId = ''s'', message = ''m2'', timestamp = 1700000000002\<rparr>)]) = 2 \<and>
   stream_events ''t''
         [(''s_1700000000000_zk3j9x2a'', \<lparr>streamId = ''s'', message = ''m1'', timestamp = 1700000000000\<rparr>),
          (''t_1700000000001_q7'', \<lparr>streamId = ''t'', message = ''n1'', timestamp = 1700000000001\<rparr>),
          (''s_1700000000002_0c5d'', \<lparr>streamId = ''s'', message = ''m2'', timestamp = 1700000000002\<rparr>)]
     = [(''t_1700000000001_q7'', \<lparr>streamId = ''t'', message = ''n1'', timestamp = 1700000000001\<rparr>)]"
  by (simp add: storeEvent_def generateEventId_def number_to_string_def show_nat.simps
        cleanupOldEvents_def maxAge_def maxEventsPerStream_def Map_get_def Map_delete_def Let_def
        stream_events_def)

lemma storeEvents_append:
  "storeEvents (cs @ ds) evs =
     (case storeEvents cs evs of
        None \<Rightarrow> None
      | Some (ids, evs') \<Rightarrow>
          (case storeEvents ds evs' of
             None \<Rightarrow> None
           | Some (ids', evs'') \<Rightarrow> Some (ids @ ids', evs'')))"
  by (induction cs arbitrary: evs) (auto split: option.splits)

lemma storeEvent_entries:
  assumes "distinct (map fst evs)"
  shows "\<exists>evs'. storeEvent sid msg t_id rnd t_ts t_now evs = Some (generateEventId sid t_id rnd, evs') \<and>
     distinct (map fst evs') \<and>
     set evs' \<subseteq> insert (generateEventId sid t_id rnd, \<lparr>streamId = sid, message = msg, timestamp = t_ts\<rparr>) (set evs)"
proof -
  let ?m = "Map_set (generateEventId sid t_id rnd) \<lparr>streamId = sid, message = msg, timestamp = t_ts\<rparr> evs"
  have "distinct (map fst ?m)" using assms by (rule Map_set_distinct)
  then have "distinct (map fst (filter (\<lambda>(i, e). i \<notin> oldest_surplus (streamId e) (within_window t_now ?m))
      (within_window t_now ?m)))"
    by (simp add: within_window_def distinct_map_filter)
  moreover have "set (filter (\<lambda>(i, e). i \<notin> oldest_surplus (streamId e) (within_window t_now ?m))
      (within_window t_now ?m)) \<subseteq> set ?m"
    by (auto simp: within_window_def)
  moreover have "set ?m \<subseteq> insert (generateEventId sid t_id rnd, \<lparr>streamId = sid, message = msg, timestamp = t_ts\<rparr>) (set evs)"
    using Map_set_entries [OF assms] by auto
  ultimately show ?thesis
    using storeEvent_eq [OF assms, of sid msg t_id rnd t_ts t_now] by blast
qed

lemma storeEvents_total:
  assumes "distinct (map fst evs)"
  shows "\<exists>ids evs'. storeEvents cs evs = Some (ids, evs') \<and> length ids = length cs \<and>
     distinct (map fst evs') \<and>
     (\<forall>x \<in> set evs'. x \<in> set evs \<or> timestamp (snd x) \<in> call_t_ts ` set cs)"
  using assms
proof (induction cs arbitrary: evs)
  case Nil
  then show ?case by simp
next
  case (Cons c cs)
  obtain evs1 where s: "storeEvent (call_stream c) (call_message c) (call_t_id c) (call_rnd c)
        (call_t_ts c) (call_t_now c) evs = Some (generateEventId (call_stream c) (call_t_id c) (call_rnd c), evs1)"
    and d1: "distinct (map fst evs1)"
    and e1: "set evs1 \<subseteq> insert (generateEventId (call_stream c) (call_t_id c) (call_rnd c),
        \<lparr>streamId = call_stream c, message = call_message c, timestamp = call_t_ts c\<rparr>) (set evs)"
    using storeEvent_entries [OF Cons.prems] by blast
  obtain ids evs' where r: "storeEvents cs evs1 = Some (ids, evs')" and l: "length ids = length cs"
    and d': "distinct (map fst evs')"
    and e': "\<forall>x \<in> set evs'. x \<in> set evs1 \<or> timestamp (snd x) \<in> call_t_ts ` set cs"
    using Cons.IH [OF d1] by blast
  have "\<forall>x \<in> set evs'. x \<in> set evs \<or> timestamp (snd x) \<in> call_t_ts ` set (c # cs)"
  proof
    fix x assume "x \<in> set evs'"
    then consider "x \<in> set evs1" | "timestamp (snd x) \<in> call_t_ts ` set cs" using e' by blast
    then show "x \<in> set evs \<or> timestamp (snd x) \<in> call_t_ts ` set (c # cs)"
    proof cases
      case 1
      then have "x \<in> set evs \<or> x = (generateEventId (call_stream c) (call_t_id c) (call_rnd c),
        \<lparr>streamId = call_stream c, message = call_message c, timestamp = call_t_ts c\<rparr>)"
        using e1 by blast
      then show ?thesis by auto
    next
      case 2
      then show ?thesis by auto
    qed
  qed
  then show ?case using s r l d' by simp
qed

lemma storeEvents_within_window:
  assumes "distinct (map fst evs)" and "sorted (map call_t_now (c # ds))"
  shows "\<exists>ids evs'. storeEvents (c # ds) evs = Some (ids, evs') \<and> distinct (map fst evs') \<and>
     (\<forall>x \<in> set evs'. call_t_now c - timestamp (snd x) \<le> maxAge)"
  using assms
proof (induction ds arbitrary: c evs)
  case Nil
  obtain evs' where s: "storeEvent (call_stream c) (call_message c) (call_t_id c) (call_rnd c)
        (call_t_ts c) (call_t_now c) evs = Some (generateEventId (call_stream c) (call_t_id c) (call_rnd c), evs')"
    and y: "\<forall>x \<in> set evs'. call_t_now c - timestamp (snd x) \<le> maxAge"
    using storeEvent_within_window [OF Nil.prems(1)] by blast
  obtain evs1 where s1: "storeEvent (call_stream c) (call_message c) (call_t_id c) (call_rnd c)
        (call_t_ts c) (call_t_now c) evs = Some (generateEventId (call_stream c) (call_t_id c) (call_rnd c), evs1)"
    and d1: "distinct (map fst evs1)"
    using storeEvent_entries [OF Nil.prems(1)] by blast
  have "evs1 = evs'" using s s1 by simp
  then show ?case using s y d1 by simp
next
  case (Cons d ds)
  obtain evs1 where s: "storeEvent (call_stream c) (call_message c) (call_t_id c) (call_rnd c)
        (call_t_ts c) (call_t_now c) evs = Some (generateEventId (call_stream c) (call_t_id c) (call_rnd c), evs1)"
    and d1: "distinct (map fst evs1)"
    using storeEvent_entries [OF Cons.prems(1)] by blast
  have le: "call_t_now c \<le> call_t_now d" and srt: "sorted (map call_t_now (d # ds))"
    using Cons.prems(2) by simp_all
  obtain ids evs' where r: "storeEvents (d # ds) evs1 = Some (ids, evs')"
    and d': "distinct (map fst evs')"
    and y: "\<forall>x \<in> set evs'. call_t_now d - timestamp (snd x) \<le> maxAge"
    using Cons.IH [OF d1 srt] by blast
  have "\<forall>x \<in> set evs'. call_t_now c - timestamp (snd x) \<le> maxAge"
    using y le by fastforce
  moreover have "storeEvents (c # d # ds) evs =
      Some (generateEventId (call_stream c) (call_t_id c) (call_rnd c) # ids, evs')"
    using s r by simp
  ultimately show ?case using d' by blast
qed

text \<open>
  Claim C4. Let a \<^verbatim>\<open>storeEvent\<close> call clean up at a time \<open>call_t_now c\<close>, and let any
  calls follow it, the clock not running backwards. All the calls return, and the store
  they leave holds no event that was older than \<open>maxAge\<close> (one hour) at that time,
  however many events its stream holds: an event of the store that was older is
  removed, and every replay on the store left sends only events of that store, none of
  which was older than \<open>maxAge\<close> at that time.
\<close>

theorem age_eviction:
  assumes "distinct (map fst evs)" and "sorted (map call_t_now (c # ds))"
  shows "\<exists>ids evs'. storeEvents (c # ds) evs = Some (ids, evs') \<and>
     (\<forall>x \<in> set evs'. call_t_now c - timestamp (snd x) \<le> maxAge) \<and>
     (\<forall>x \<in> set evs. call_t_now c - timestamp (snd x) > maxAge \<longrightarrow> x \<notin> set evs') \<and>
     (\<forall>d \<in> set (snd (replayEventsAfter ckey marker evs')).
        \<exists>e. (fst d, e) \<in> set evs' \<and> message e = snd d \<and> call_t_now c - timestamp e \<le> maxAge)"
proof -
  obtain ids evs' where st: "storeEvents (c # ds) evs = Some (ids, evs')"
    and young: "\<forall>x \<in> set evs'. call_t_now c - timestamp (snd x) \<le> maxAge"
    using storeEvents_within_window [OF assms] by blast
  have gone: "\<forall>x \<in> set evs. call_t_now c - timestamp (snd x) > maxAge \<longrightarrow> x \<notin> set evs'"
    using young by fastforce
  have "\<exists>e. (fst d, e) \<in> set evs' \<and> message e = snd d \<and> call_t_now c - timestamp e \<le> maxAge"
    if d: "d \<in> set (snd (replayEventsAfter ckey marker evs'))" for d
  proof -
    obtain e where "(fst d, e) \<in> set evs'" "message e = snd d"
      using replay_delivers_stored [OF d] by blast
    then show ?thesis using young by fastforce
  qed
  with st young gone show ?thesis by blast
qed

theorem age_eviction_witness:
  "distinct (map fst
     [(''s_1700000000000_zk3j9x2a'', \<lparr>streamId = ''s'', message = ''m1'', timestamp = 1700000000000\<rparr>),
      (''s_1700000000001_q7'', \<lparr>streamId = ''s'', message = ''m2'', timestamp = 1700000000001\<rparr>)]) \<and>
   sorted (map call_t_now
     [\<lparr>call_stream = ''t'', call_message = ''n1'', call_t_id = 1700003600001,
        call_rnd = ''0c5d'', call_t_ts = 1700003600001, call_t_now = 1700003600001\<rparr>,
      \<lparr>call_stream = ''s'', call_message = ''m3'', call_t_id = 1700003600001,
        call_rnd = ''p2'', call_t_ts = 1700003600001, call_t_now = 1700003600001\<rparr>]) \<and>
   storeEvents
     [\<lparr>call_stream = ''t'', call_message = ''n1'', call_t_id = 1700003600001,
        call_rnd = ''0c5d'', call_t_ts = 1700003600001, call_t_now = 1700003600001\<rparr>,
      \<lparr>call_stream = ''s'', call_message = ''m3'', call_t_id = 1700003600001,
        call_rnd = ''p2'', call_t_ts = 1700003600001, call_t_now = 1700003600001\<rparr>]
     [(''s_1700000000000_zk3j9x2a'', \<lparr>streamId = ''s'', message = ''m1'', timestamp = 1700000000000\<rparr>),
      (''s_1700000000001_q7'', \<lparr>streamId = ''s'', message = ''m2'', timestamp = 1700000000001\<rparr>)]
     = Some ([''t_1700003600001_0c5d'', ''s_1700003600001_p2''],
         [(''s_1700000000001_q7'', \<lparr>streamId = ''s'', message = ''m2'', timestamp = 1700000000001\<rparr>),
          (''t_1700003600001_0c5d'', \<lparr>streamId = ''t'', message = ''n1'', timestamp = 1700003600001\<rparr>),
          (''s_1700003600001_p2'', \<lparr>streamId = ''s'', message = ''m3'', timestamp = 1700003600001\<rparr>)]) \<and>
   replayEventsAfter codeUnitKey ''s_1700000000000_zk3j9x2a''
         [(''s_1700000000001_q7'', \<lparr>streamId = ''s'', message = ''m2'', timestamp = 1700000000001\<rparr>),
          (''t_1700003600001_0c5d'', \<lparr>streamId = ''t'', message = ''n1'', timestamp = 1700003600001\<rparr>),
          (''s_1700003600001_p2'', \<lparr>streamId = ''s'', message = ''m3'', timestamp = 1700003600001\<rparr>)]
     = ([], [])"
  (is "distinct (map fst ?evs) \<and> sorted (map call_t_now (?c # ?ds)) \<and> _")
proof -
  have d: "distinct (map fst ?evs)" by simp
  have s: "sorted (map call_t_now (?c # ?ds))" by simp
  show ?thesis
    using age_eviction [OF d s, of codeUnitKey "''s_1700000000000_zk3j9x2a''"]
    by (simp add: storeEvent_def generateEventId_def number_to_string_def show_nat.simps
        cleanupOldEvents_def maxAge_def maxEventsPerStream_def Map_get_def Map_delete_def Let_def
        replayEventsAfter_def Map_has_def)
qed

lemma filter_Map_set_only:
  assumes "\<forall>x \<in> set m. \<not> P x" and "P (k, v)"
  shows "filter P (Map_set k v m) = [(k, v)]"
  using assms by (induction m) auto

lemma storeEvent_after_expiry:
  assumes "distinct (map fst evs)"
    and "\<forall>x \<in> set evs. t_now - timestamp (snd x) > maxAge" and "t_now - t_ts \<le> maxAge"
  shows "storeEvent sid msg t_id rnd t_ts t_now evs =
     Some (generateEventId sid t_id rnd,
           [(generateEventId sid t_id rnd, \<lparr>streamId = sid, message = msg, timestamp = t_ts\<rparr>)])"
proof -
  let ?k = "generateEventId sid t_id rnd"
  let ?v = "\<lparr>streamId = sid, message = msg, timestamp = t_ts\<rparr>"
  have w: "within_window t_now (Map_set ?k ?v evs) = [(?k, ?v)]"
    unfolding within_window_def
    by (rule filter_Map_set_only) (use assms in \<open>auto simp: case_prod_unfold\<close>)
  have "oldest_surplus s [(?k, ?v)] = {}" for s
    by (simp add: oldest_surplus_def stream_events_def maxEventsPerStream_def)
  then show ?thesis
    using storeEvent_eq [OF assms(1), of sid msg t_id rnd t_ts t_now] by (simp add: w)
qed

text \<open>
  The claim as stated fails for a run of calls longer than the retention window: of
  1001 events stored to one stream, the first 1000 in consecutive milliseconds and the
  last one 3601 seconds after the first, only the last is retained, since the others
  are older than an hour at the last call.
\<close>

theorem eviction_exact_counterexample:
  "map_option (\<lambda>r. (length (fst r), length (stream_events ''s'' (snd r))))
     (storeEvents
        (map (\<lambda>n. \<lparr>call_stream = ''s'', call_message = n, call_t_id = 1700000000000 + int n,
                    call_rnd = ''zk3j9x2a'', call_t_ts = 1700000000000 + int n,
                    call_t_now = 1700000000000 + int n\<rparr>) [0..<1000]
         @ [\<lparr>call_stream = ''s'', call_message = 1000, call_t_id = 1700003601000,
              call_rnd = ''zk3j9x2a'', call_t_ts = 1700003601000, call_t_now = 1700003601000\<rparr>]) [])
   = Some (1001, 1)"
proof -
  let ?cs = "map (\<lambda>n. \<lparr>call_stream = ''s'', call_message = n, call_t_id = 1700000000000 + int n,
                    call_rnd = ''zk3j9x2a'', call_t_ts = 1700000000000 + int n,
                    call_t_now = 1700000000000 + int n\<rparr>) [0..<1000]"
  have "distinct (map fst ([] :: nat events))" by simp
  from storeEvents_total [OF this, of ?cs]
  obtain ids evs where r: "storeEvents ?cs [] = Some (ids, evs)" and l: "length ids = 1000"
    and d: "distinct (map fst evs)"
    and e: "\<forall>x \<in> set evs. timestamp (snd x) \<in> call_t_ts ` set ?cs"
    by auto
  have old: "\<forall>x \<in> set evs. 1700003601000 - timestamp (snd x) > maxAge"
  proof
    fix x assume "x \<in> set evs"
    then obtain n where "n < 1000" "timestamp (snd x) = 1700000000000 + int n"
      using e by auto
    then show "1700003601000 - timestamp (snd x) > maxAge"
      by (simp add: maxAge_def)
  qed
  have "storeEvent ''s'' 1000 1700003601000 ''zk3j9x2a'' 1700003601000 1700003601000 evs =
      Some (generateEventId ''s'' 1700003601000 ''zk3j9x2a'',
            [(generateEventId ''s'' 1700003601000 ''zk3j9x2a'',
              \<lparr>streamId = ''s'', message = 1000, timestamp = 1700003601000\<rparr>)])"
    using d old by (rule storeEvent_after_expiry) (simp add: maxAge_def)
  then show ?thesis
    by (simp add: storeEvents_append r l stream_events_def)
qed

section \<open>Replay\<close>

lemma remove_oldest_subset: "remove_oldest n xs evs = Some evs' \<Longrightarrow> set evs' \<subseteq> set evs"
proof (induction n xs evs rule: remove_oldest.induct)
  case (3 n e streamEvents evs)
  then have "set evs' \<subseteq> set (Map_delete (fst e) evs)" by simp
  then show ?case by (auto simp: Map_delete_def)
qed simp_all

lemma evict_subset: "evict cs evs = Some evs' \<Longrightarrow> set evs' \<subseteq> set evs"
proof (induction cs arbitrary: evs)
  case Nil
  then show ?case by simp
next
  case (Cons x cs)
  obtain s c where x: "x = (s, c)" by (cases x)
  show ?case
  proof (cases "c > maxEventsPerStream")
    case True
    then obtain evs1 where r: "remove_oldest (c - maxEventsPerStream)
        (sort_key (\<lambda>(i, e). timestamp e) (filter (\<lambda>(i, e). streamId e = s) evs)) evs = Some evs1"
      and e: "evict cs evs1 = Some evs'"
      using Cons.prems x by (auto simp: Let_def split: option.splits)
    show ?thesis
      using remove_oldest_subset [OF r] Cons.IH [OF e] by blast
  next
    case False
    then show ?thesis using Cons x by simp
  qed
qed

lemma cleanupOldEvents_subset: "cleanupOldEvents now evs = Some evs' \<Longrightarrow> set evs' \<subseteq> set evs"
proof -
  assume a: "cleanupOldEvents now evs = Some evs'"
  obtain live counts where sw: "sweep now evs evs [] = (live, counts)" by (cases "sweep now evs evs []")
  have "live = fst (sweep now evs evs [])" by (simp add: sw)
  then have "set live \<subseteq> set evs" unfolding sweep_events by auto
  moreover have "set evs' \<subseteq> set live"
    using a sw evict_subset by (auto simp: cleanupOldEvents_def)
  ultimately show ?thesis by blast
qed

lemma storeEvent_keys:
  assumes "storeEvent sid msg t_id rnd t_ts t_now evs = Some (eventId, evs')"
  shows "fst ` set evs' \<subseteq> insert eventId (fst ` set evs)"
proof -
  from assms have e: "eventId = generateEventId sid t_id rnd"
    and c: "cleanupOldEvents t_now (Map_set eventId \<lparr>streamId = sid, message = msg, timestamp = t_ts\<rparr> evs) = Some evs'"
    by (auto simp: storeEvent_def Let_def split: option.splits)
  show ?thesis
    using cleanupOldEvents_subset [OF c] Map_set_keys [of eventId _ evs]
    by (metis image_mono)
qed

lemma storeEvents_keys:
  "storeEvents calls evs = Some (ids, evs') \<Longrightarrow> fst ` set evs' \<subseteq> fst ` set evs \<union> set ids"
proof (induction calls arbitrary: evs ids)
  case Nil
  then show ?case by simp
next
  case (Cons c calls)
  then obtain eventId evs1 ids1 where
    s: "storeEvent (call_stream c) (call_message c) (call_t_id c) (call_rnd c) (call_t_ts c) (call_t_now c) evs
          = Some (eventId, evs1)"
    and r: "storeEvents calls evs1 = Some (ids1, evs')" and i: "ids = eventId # ids1"
    by (auto split: option.splits)
  show ?case
  proof -
    have "fst ` set evs' \<subseteq> fst ` set evs1 \<union> set ids1" by (rule Cons.IH [OF r])
    also have "\<dots> \<subseteq> insert eventId (fst ` set evs) \<union> set ids1"
      using storeEvent_keys [OF s] by blast
    finally show ?thesis using i by auto
  qed
qed

text \<open>
  Claim C3. A marker that is empty, that was never stored (it is neither a key of the
  store at the start nor an id returned by one of the \<^verbatim>\<open>storeEvent\<close> calls since) or is
  no key of the store any more, or whose stream id parses to the empty string, makes
  \<^verbatim>\<open>replayEventsAfter\<close> return the empty string and call \<^verbatim>\<open>send\<close> not once.
\<close>

theorem replay_unknown_marker:
  assumes "storeEvents calls evs0 = Some (ids, evs)"
    and "lastEventId = [] \<or> (\<not> Map_has lastEventId evs0 \<and> lastEventId \<notin> set ids)
         \<or> \<not> Map_has lastEventId evs \<or> getStreamIdFromEventId lastEventId = []"
  shows "replayEventsAfter ckey lastEventId evs = ([], [])"
proof -
  have "\<not> Map_has lastEventId evs" if "\<not> Map_has lastEventId evs0" "lastEventId \<notin> set ids"
    using storeEvents_keys [OF assms(1)] that by (auto simp: Map_has_def)
  with assms(2) show ?thesis
    by (auto simp: replayEventsAfter_def Let_def)
qed

theorem replay_unknown_marker_witness:
  "storeEvents [\<lparr>call_stream = ''_GET_stream'', call_message = ''m1'', call_t_id = 1700000000000,
         call_rnd = ''k3j9x2ab'', call_t_ts = 1700000000000, call_t_now = 1700000000001\<rparr>] []
     = Some ([''_GET_stream_1700000000000_k3j9x2ab''],
             [(''_GET_stream_1700000000000_k3j9x2ab'',
               \<lparr>streamId = ''_GET_stream'', message = ''m1'', timestamp = 1700000000000\<rparr>)]) \<and>
   replayEventsAfter codeUnitKey []
     [(''_GET_stream_1700000000000_k3j9x2ab'',
       \<lparr>streamId = ''_GET_stream'', message = ''m1'', timestamp = 1700000000000\<rparr>)] = ([], []) \<and>
   ''s_1700000000000_zzzzzzzz'' \<notin> set [''_GET_stream_1700000000000_k3j9x2ab''] \<and>
   replayEventsAfter codeUnitKey ''s_1700000000000_zzzzzzzz''
     [(''_GET_stream_1700000000000_k3j9x2ab'',
       \<lparr>streamId = ''_GET_stream'', message = ''m1'', timestamp = 1700000000000\<rparr>)] = ([], []) \<and>
   getStreamIdFromEventId ''_GET_stream_1700000000000_k3j9x2ab'' = [] \<and>
   replayEventsAfter codeUnitKey ''_GET_stream_1700000000000_k3j9x2ab''
     [(''_GET_stream_1700000000000_k3j9x2ab'',
       \<lparr>streamId = ''_GET_stream'', message = ''m1'', timestamp = 1700000000000\<rparr>)] = ([], [])"
  (is "?run \<and> ?empty \<and> ?fresh \<and> ?unknown \<and> ?unparsed \<and> ?stored")
proof -
  have run: ?run
    by (simp add: storeEvent_def generateEventId_def number_to_string_def show_nat.simps
        cleanupOldEvents_def maxAge_def maxEventsPerStream_def Map_get_def Let_def)
  have fresh: ?fresh by simp
  have unparsed: ?unparsed by (simp add: getStreamIdFromEventId_def)
  have ?empty
    by (rule replay_unknown_marker [OF run]) simp
  moreover have ?unknown
    by (rule replay_unknown_marker [OF run]) (simp add: Map_has_def)
  moreover have ?stored
    by (rule replay_unknown_marker [OF run]) (simp add: unparsed)
  ultimately show ?thesis using run fresh unparsed by blast
qed

lemma replay_loop_filter:
  "replay_loop sid marker found xs = replay_loop sid marker found (filter (\<lambda>(i, e). streamId e = sid) xs)"
  by (induction xs arbitrary: found) auto

lemma replay_loop_found:
  assumes "\<forall>x \<in> set xs. streamId (snd x) = sid"
  shows "replay_loop sid marker True xs =
     map (\<lambda>(i, e). (i, message e)) (filter (\<lambda>(i, e). i \<noteq> marker) xs)"
  using assms by (induction xs) auto

lemma replay_loop_at:
  assumes "\<forall>x \<in> set xs. streamId (snd x) = sid"
    and "distinct (map fst xs)" and "k < length xs"
  shows "replay_loop sid (fst (xs ! k)) False xs = map (\<lambda>(i, e). (i, message e)) (drop (Suc k) xs)"
  using assms
proof (induction xs arbitrary: k)
  case Nil
  then show ?case by simp
next
  case (Cons x xs)
  obtain j d where x: "x = (j, d)" by (cases x)
  have sd: "streamId d = sid" using Cons.prems(1) x by simp
  have rest: "\<forall>x \<in> set xs. streamId (snd x) = sid" using Cons.prems(1) by simp
  have dist: "distinct (map fst xs)" using Cons.prems(2) by simp
  show ?case
  proof (cases k)
    case 0
    have "j \<notin> fst ` set xs" using Cons.prems(2) x by simp
    then have "filter (\<lambda>(i, e). i \<noteq> j) xs = xs"
      by (force simp: filter_id_conv)
    then show ?thesis
      using 0 x sd replay_loop_found [OF rest, of j] by simp
  next
    case (Suc k')
    then have k': "k' < length xs" using Cons.prems(3) by simp
    have "fst (xs ! k') \<in> fst ` set xs" using k' by simp
    moreover have "j \<notin> fst ` set xs" using Cons.prems(2) x by simp
    ultimately have "fst (xs ! k') \<noteq> j" by metis
    then show ?thesis
      using Suc x sd Cons.IH [OF rest dist k'] by simp
  qed
qed

lemma replay_after_marker_in_store:
  assumes "sid \<noteq> []" and "CHR ''_'' \<notin> set sid"
    and "k < length (stream_events sid evs)"
    and "take (Suc (length sid)) (fst (stream_events sid evs ! k)) = sid @ ''_''"
    and "sorted_wrt (<) (map (\<lambda>(i, e). ckey i) (stream_events sid evs))"
  shows "replayEventsAfter ckey (fst (stream_events sid evs ! k)) evs =
     (sid, map (\<lambda>(i, e). (i, message e)) (drop (Suc k) (stream_events sid evs)))"
proof -
  define ys where "ys = stream_events sid evs"
  define marker where "marker = fst (ys ! k)"
  have k: "k < length ys" using assms(3) by (simp add: ys_def)
  have in_stream: "\<forall>x \<in> set ys. streamId (snd x) = sid"
    by (auto simp: ys_def stream_events_def)
  have pre: "take (Suc (length sid)) marker = sid @ ''_''"
    using assms(4) by (simp add: marker_def ys_def)
  have "marker = take (Suc (length sid)) marker @ drop (Suc (length sid)) marker"
    by (rule append_take_drop_id [symmetric])
  also have "\<dots> = (sid @ ''_'') @ drop (Suc (length sid)) marker"
    by (rule arg_cong [OF pre])
  finally have last_eq: "marker = sid @ CHR ''_'' # drop (Suc (length sid)) marker"
    by simp
  then have ne: "marker \<noteq> []" by auto
  have parse: "getStreamIdFromEventId marker = sid"
    using getStreamId_of_prefixed [OF assms(2)] last_eq by metis
  have "ys ! k \<in> set evs"
    using k nth_mem [of k ys] by (auto simp: ys_def stream_events_def)
  then have has: "Map_has marker evs"
    by (auto simp: Map_has_def marker_def)
  have srt: "sorted (map (\<lambda>(i, e). ckey i) ys)"
    using assms(5) by (simp add: ys_def strict_sorted_iff)
  have "distinct (map (\<lambda>(i, e). ckey i) ys)"
    using assms(5) by (simp add: ys_def strict_sorted_iff)
  moreover have "map (\<lambda>(i, e). ckey i) ys = map ckey (map fst ys)"
    by (simp add: case_prod_unfold)
  ultimately have "distinct (map ckey (map fst ys))"
    by metis
  then have dist: "distinct (map fst ys)"
    using distinct_map [of ckey "map fst ys"] by blast
  have "replay_loop sid marker False (sort_key (\<lambda>(i, e). ckey i) evs) =
      replay_loop sid marker False (filter (\<lambda>(i, e). streamId e = sid) (sort_key (\<lambda>(i, e). ckey i) evs))"
    by (rule replay_loop_filter)
  also have "filter (\<lambda>(i, e). streamId e = sid) (sort_key (\<lambda>(i, e). ckey i) evs) =
      sort_key (\<lambda>(i, e). ckey i) ys"
    by (simp add: filter_sort ys_def stream_events_def)
  also have "\<dots> = ys"
    using srt by (rule sort_key_id_if_sorted)
  also have "replay_loop sid marker False ys = map (\<lambda>(i, e). (i, message e)) (drop (Suc k) ys)"
    unfolding marker_def using in_stream dist k by (rule replay_loop_at)
  finally show ?thesis
    using ne has parse assms(1)
    by (simp add: replayEventsAfter_def Let_def marker_def ys_def)
qed


lemma storeEvents_generated:
  assumes "storeEvents calls evs0 = Some (ids, evs)" and "distinct (map fst evs0)"
    and "\<forall>x \<in> set evs0. take (Suc (length (streamId (snd x)))) (fst x) = streamId (snd x) @ ''_''"
  shows "\<forall>x \<in> set evs. take (Suc (length (streamId (snd x)))) (fst x) = streamId (snd x) @ ''_''"
  using assms
proof (induction calls arbitrary: evs0 ids)
  case Nil
  then show ?case by simp
next
  case (Cons c calls)
  obtain evs1 where s: "storeEvent (call_stream c) (call_message c) (call_t_id c) (call_rnd c)
        (call_t_ts c) (call_t_now c) evs0 = Some (generateEventId (call_stream c) (call_t_id c) (call_rnd c), evs1)"
    and d1: "distinct (map fst evs1)"
    and e1: "set evs1 \<subseteq> insert (generateEventId (call_stream c) (call_t_id c) (call_rnd c),
        \<lparr>streamId = call_stream c, message = call_message c, timestamp = call_t_ts c\<rparr>) (set evs0)"
    using storeEvent_entries [OF Cons.prems(2)] by blast
  obtain ids1 where r: "storeEvents calls evs1 = Some (ids1, evs)"
    using Cons.prems(1) s by (auto split: option.splits)
  have "\<forall>x \<in> set evs1. take (Suc (length (streamId (snd x)))) (fst x) = streamId (snd x) @ ''_''"
  proof
    fix x assume "x \<in> set evs1"
    then consider "x \<in> set evs0"
      | "x = (generateEventId (call_stream c) (call_t_id c) (call_rnd c),
          \<lparr>streamId = call_stream c, message = call_message c, timestamp = call_t_ts c\<rparr>)"
      using e1 by blast
    then show "take (Suc (length (streamId (snd x)))) (fst x) = streamId (snd x) @ ''_''"
    proof cases
      case 1
      then show ?thesis using Cons.prems(3) by blast
    next
      case 2
      then show ?thesis by (simp add: generateEventId_def)
    qed
  qed
  from Cons.IH [OF r d1 this] show ?case .
qed

text \<open>
  Claim C1, as amended. Let the store be the result of \<^verbatim>\<open>storeEvent\<close> calls on the empty
  store, let the events of a stream in it be \<open>e\<^sub>1 \<dots> e\<^sub>n\<close> in the order of arrival, the
  stream id non-empty and free of underscores, and the ids strictly increasing in the
  collation along the order of arrival. Then \<^verbatim>\<open>replayEventsAfter\<close> on the id of \<open>e\<^sub>k\<close>
  calls \<^verbatim>\<open>send\<close> with exactly the events after \<open>e\<^sub>k\<close> in that order, with no event of
  another stream, and returns the stream id. (The index \<open>k\<close> counts from 0 here.)
\<close>

theorem replay_after_marker:
  assumes "storeEvents calls [] = Some (ids, evs)"
    and "sid \<noteq> []" and "CHR ''_'' \<notin> set sid"
    and "k < length (stream_events sid evs)"
    and "sorted_wrt (<) (map (\<lambda>(i, e). ckey i) (stream_events sid evs))"
  shows "replayEventsAfter ckey (fst (stream_events sid evs ! k)) evs =
     (sid, map (\<lambda>(i, e). (i, message e)) (drop (Suc k) (stream_events sid evs)))"
proof -
  have g: "\<forall>x \<in> set evs. take (Suc (length (streamId (snd x)))) (fst x) = streamId (snd x) @ ''_''"
    using assms(1) by (rule storeEvents_generated) simp_all
  have "stream_events sid evs ! k \<in> set (stream_events sid evs)"
    using assms(4) by (rule nth_mem)
  then have m: "stream_events sid evs ! k \<in> set evs"
    and s: "streamId (snd (stream_events sid evs ! k)) = sid"
    by (auto simp: stream_events_def)
  have "take (Suc (length (streamId (snd (stream_events sid evs ! k))))) (fst (stream_events sid evs ! k)) =
      streamId (snd (stream_events sid evs ! k)) @ ''_''"
    using g m by (rule bspec)
  then have "take (Suc (length sid)) (fst (stream_events sid evs ! k)) = sid @ ''_''"
    unfolding s .
  with assms(2,3,4) show ?thesis
    using assms(5) by (rule replay_after_marker_in_store)
qed

theorem replay_after_marker_witness:
  "storeEvents
     [\<lparr>call_stream = ''s'', call_message = ''m1'', call_t_id = 1700000000000,
        call_rnd = ''zk3j9x2a'', call_t_ts = 1700000000000, call_t_now = 1700000000000\<rparr>,
      \<lparr>call_stream = ''t'', call_message = ''n1'', call_t_id = 1700000000001,
        call_rnd = ''a81m4q0p'', call_t_ts = 1700000000001, call_t_now = 1700000000001\<rparr>,
      \<lparr>call_stream = ''s'', call_message = ''m2'', call_t_id = 1700000000002,
        call_rnd = ''q7'', call_t_ts = 1700000000002, call_t_now = 1700000000002\<rparr>,
      \<lparr>call_stream = ''s'', call_message = ''m3'', call_t_id = 1700000000003,
        call_rnd = ''0c5d'', call_t_ts = 1700000000003, call_t_now = 1700000000003\<rparr>] []
     = Some ([''s_1700000000000_zk3j9x2a'', ''t_1700000000001_a81m4q0p'',
              ''s_1700000000002_q7'', ''s_1700000000003_0c5d''],
             [(''s_1700000000000_zk3j9x2a'', \<lparr>streamId = ''s'', message = ''m1'', timestamp = 1700000000000\<rparr>),
              (''t_1700000000001_a81m4q0p'', \<lparr>streamId = ''t'', message = ''n1'', timestamp = 1700000000001\<rparr>),
              (''s_1700000000002_q7'', \<lparr>streamId = ''s'', message = ''m2'', timestamp = 1700000000002\<rparr>),
              (''s_1700000000003_0c5d'', \<lparr>streamId = ''s'', message = ''m3'', timestamp = 1700000000003\<rparr>)]) \<and>
   replayEventsAfter codeUnitKey ''s_1700000000000_zk3j9x2a''
     [(''s_1700000000000_zk3j9x2a'', \<lparr>streamId = ''s'', message = ''m1'', timestamp = 1700000000000\<rparr>),
      (''t_1700000000001_a81m4q0p'', \<lparr>streamId = ''t'', message = ''n1'', timestamp = 1700000000001\<rparr>),
      (''s_1700000000002_q7'', \<lparr>streamId = ''s'', message = ''m2'', timestamp = 1700000000002\<rparr>),
      (''s_1700000000003_0c5d'', \<lparr>streamId = ''s'', message = ''m3'', timestamp = 1700000000003\<rparr>)]
     = (''s'', [(''s_1700000000002_q7'', ''m2''), (''s_1700000000003_0c5d'', ''m3'')])"
  (is "?run \<and> replayEventsAfter _ _ ?evs = _")
proof -
  have run: ?run
    by (simp add: storeEvent_def generateEventId_def number_to_string_def show_nat.simps
        cleanupOldEvents_def maxAge_def maxEventsPerStream_def Map_get_def Map_delete_def Let_def)
  have se: "stream_events ''s'' ?evs =
     [(''s_1700000000000_zk3j9x2a'', \<lparr>streamId = ''s'', message = ''m1'', timestamp = 1700000000000\<rparr>),
      (''s_1700000000002_q7'', \<lparr>streamId = ''s'', message = ''m2'', timestamp = 1700000000002\<rparr>),
      (''s_1700000000003_0c5d'', \<lparr>streamId = ''s'', message = ''m3'', timestamp = 1700000000003\<rparr>)]"
    by (simp add: stream_events_def)
  have h1: "''s'' \<noteq> []" and h2: "CHR ''_'' \<notin> set ''s''" by simp_all
  have h3: "0 < length (stream_events ''s'' ?evs)" by (simp add: se)
  have h4: "take (Suc (length ''s'')) (fst (stream_events ''s'' ?evs ! 0)) = ''s'' @ ''_''"
    by (simp add: se)
  have h5: "sorted_wrt (<) (map (\<lambda>(i, e). codeUnitKey i) (stream_events ''s'' ?evs))"
    by (simp add: se codeUnitKey_def)
  show ?thesis
    using run replay_after_marker [OF run h1 h2 h3 h5] by (simp add: se)
qed

text \<open>
  The claim as stated fails without these conditions. Two events of one stream stored
  in the same millisecond are replayed in the order of their random suffixes: the
  second event arrived later, its id sorts first (the ids differ first where one has
  \<^verbatim>\<open>z\<close> and the other \<^verbatim>\<open>a\<close>, so in every collation that has \<^verbatim>\<open>a\<close> before \<^verbatim>\<open>z\<close>), and a
  replay after the first event sends nothing. For a stream id with an underscore the
  parsed stream is a proper prefix, no event belongs to it, and the replay returns the
  prefix and sends nothing.
\<close>

theorem replay_arrival_order_counterexample:
  "storeEvents
     [\<lparr>call_stream = ''s'', call_message = ''m1'', call_t_id = 1700000000000,
        call_rnd = ''zk3j9x2a'', call_t_ts = 1700000000000, call_t_now = 1700000000000\<rparr>,
      \<lparr>call_stream = ''s'', call_message = ''m2'', call_t_id = 1700000000000,
        call_rnd = ''a81m4q0p'', call_t_ts = 1700000000000, call_t_now = 1700000000000\<rparr>] []
     = Some ([''s_1700000000000_zk3j9x2a'', ''s_1700000000000_a81m4q0p''],
             [(''s_1700000000000_zk3j9x2a'', \<lparr>streamId = ''s'', message = ''m1'', timestamp = 1700000000000\<rparr>),
              (''s_1700000000000_a81m4q0p'', \<lparr>streamId = ''s'', message = ''m2'', timestamp = 1700000000000\<rparr>)]) \<and>
   replayEventsAfter codeUnitKey ''s_1700000000000_zk3j9x2a''
     [(''s_1700000000000_zk3j9x2a'', \<lparr>streamId = ''s'', message = ''m1'', timestamp = 1700000000000\<rparr>),
      (''s_1700000000000_a81m4q0p'', \<lparr>streamId = ''s'', message = ''m2'', timestamp = 1700000000000\<rparr>)]
     = (''s'', []) \<and>
   storeEvents
     [\<lparr>call_stream = ''a_b'', call_message = ''m1'', call_t_id = 1700000000000,
        call_rnd = ''zk3j9x2a'', call_t_ts = 1700000000000, call_t_now = 1700000000000\<rparr>,
      \<lparr>call_stream = ''a_b'', call_message = ''m2'', call_t_id = 1700000000001,
        call_rnd = ''a81m4q0p'', call_t_ts = 1700000000001, call_t_now = 1700000000001\<rparr>] []
     = Some ([''a_b_1700000000000_zk3j9x2a'', ''a_b_1700000000001_a81m4q0p''],
             [(''a_b_1700000000000_zk3j9x2a'', \<lparr>streamId = ''a_b'', message = ''m1'', timestamp = 1700000000000\<rparr>),
              (''a_b_1700000000001_a81m4q0p'', \<lparr>streamId = ''a_b'', message = ''m2'', timestamp = 1700000000001\<rparr>)]) \<and>
   replayEventsAfter codeUnitKey ''a_b_1700000000000_zk3j9x2a''
     [(''a_b_1700000000000_zk3j9x2a'', \<lparr>streamId = ''a_b'', message = ''m1'', timestamp = 1700000000000\<rparr>),
      (''a_b_1700000000001_a81m4q0p'', \<lparr>streamId = ''a_b'', message = ''m2'', timestamp = 1700000000001\<rparr>)]
     = (''a'', [])"
  by (simp add: storeEvent_def generateEventId_def number_to_string_def show_nat.simps
      cleanupOldEvents_def maxAge_def maxEventsPerStream_def Map_get_def Map_delete_def Let_def
      replayEventsAfter_def Map_has_def getStreamIdFromEventId_def codeUnitKey_def)

section \<open>The HTTP endpoints\<close>

lemma inherited_lookup:
  assumes "k \<in> set Object_prototype_names" and "obj k = None"
  shows "get_property obj k = Inherited k"
  using assms by (simp add: get_property_def)

lemma randomUUID_not_inherited: "randomUUID_result s \<Longrightarrow> s \<notin> set Object_prototype_names"
  by (auto simp: randomUUID_result_def Object_prototype_names_def)

lemma lookup_session_truthy_header: "truthy (lookup_session h obj) \<Longrightarrow> header_truthy h"
  by (auto simp: lookup_session_def truthy_def header_truthy_def split: option.splits if_splits)

subsection \<open>POST /mcp\<close>

text \<open>
  A new event store and transport are constructed exactly for a request without session
  id (no header, or an empty one) that is an initialization request.
\<close>

lemma post_mcp_created:
  "created (post_mcp sdk req reg) \<noteq> None \<longleftrightarrow> \<not> header_truthy (session_header req) \<and> is_initialize req"
proof (cases "truthy (lookup_session (session_header req) (streamable reg))")
  case True
  then have "created (post_mcp sdk req reg) = None"
    by (simp add: post_mcp_def Let_def post_mcp_handle_def post_mcp_catch_def split: property.splits)
  then show ?thesis using lookup_session_truthy_header [OF True] by simp
next
  case False
  then show ?thesis
    by (simp add: post_mcp_def Let_def post_mcp_handle_def post_mcp_catch_def split: option.splits)
qed

text \<open>
  Where the lookup of the session id finds nothing, own or inherited, the answer is the
  400 envelope and nothing changes.
\<close>

lemma post_mcp_no_valid_session:
  assumes "lookup_session (session_header req) (streamable reg) = Undefined"
    and "header_truthy (session_header req) \<or> \<not> is_initialize req"
  shows "post_mcp sdk req reg =
     \<lparr>responses = [Json 400 (Error_envelope (- 32000) ''Bad Request: No valid session ID provided'' True)],
      registry = reg, rejected = False, created = None\<rparr>"
  using assms by (auto simp: post_mcp_def Let_def truthy_def)

text \<open>
  Claim C5 says that a POST /mcp request with a session id that is not in the registry
  is answered with HTTP 400 and the envelope of code -32000. The code does otherwise for
  a session id that names a property of \<^verbatim>\<open>Object.prototype\<close>: on the empty registry the
  header value \<^verbatim>\<open>constructor\<close> is looked up as \<^verbatim>\<open>transports.streamable["constructor"]\<close>,
  which is the inherited constructor function and truthy, so the request is taken for
  one of an existing session; \<^verbatim>\<open>transport.handleRequest\<close> is not a function, the call
  throws, and the \<^verbatim>\<open>catch\<close> block answers with HTTP 500 and the envelope of code -32603.
\<close>

theorem post_mcp_inherited_key:
  "post_mcp sdk \<lparr>session_header = Some ''constructor'', is_initialize = False, query_sessionId = None\<rparr>
     initial_registry =
   \<lparr>responses = [Json 500 (Error_envelope (- 32603) ''Internal server error'' True)],
    registry = initial_registry, rejected = False, created = None\<rparr>"
  by (simp add: post_mcp_def Let_def lookup_session_def get_property_def truthy_def
      Object_prototype_names_def initial_registry_def post_mcp_catch_def)

subsection \<open>DELETE /mcp\<close>

lemma delete_mcp_no_header:
  assumes "\<not> header_truthy (session_header req)"
  shows "delete_mcp oc req reg =
     \<lparr>responses = [Json 400 (Error_envelope (- 32000) ''Bad Request: No session ID provided'' False)],
      registry = reg, rejected = False, created = None\<rparr>"
  using assms by (auto simp: delete_mcp_def header_truthy_def split: option.splits)

lemma delete_mcp_not_found:
  assumes "session_header req = Some sid" and "sid \<noteq> []"
    and "get_property (streamable reg) sid = Undefined"
  shows "delete_mcp oc req reg =
     \<lparr>responses = [Json 404 (Error_envelope (- 32001) ''Session not found'' False)],
      registry = reg, rejected = False, created = None\<rparr>"
  using assms by (simp add: delete_mcp_def)

lemma delete_mcp_terminated:
  assumes "session_header req = Some sid" and "sid \<noteq> []"
    and "streamable reg sid = Some t" and "oc = Unset \<or> oc = Returns"
  shows "responses (delete_mcp oc req reg) = [Json 200 Terminated_result] \<and>
     streamable (registry (delete_mcp oc req reg)) sid = None \<and>
     eventStores (registry (delete_mcp oc req reg)) sid = None \<and>
     \<not> rejected (delete_mcp oc req reg)"
  using assms by (auto simp: delete_mcp_def get_property_def delete_property_def Let_def)

lemma delete_mcp_fault:
  assumes "session_header req = Some sid" and "sid \<noteq> []"
    and "streamable reg sid = Some t" and "oc = Throws_before \<or> oc = Throws_after"
  shows "responses (delete_mcp oc req reg) =
       [Json 500 (Error_envelope (- 32603) ''Internal server error during session termination'' False)] \<and>
     \<not> rejected (delete_mcp oc req reg)"
  using assms by (auto simp: delete_mcp_def get_property_def delete_mcp_500_def)

text \<open>A second DELETE for a session id that names no inherited property is answered with 404.\<close>

lemma delete_mcp_twice:
  assumes "session_header req = Some sid" and "sid \<noteq> []" and "sid \<notin> set Object_prototype_names"
    and "streamable reg sid = Some t" and "oc = Unset \<or> oc = Returns"
  shows "responses (delete_mcp oc' req (registry (delete_mcp oc req reg))) =
     [Json 404 (Error_envelope (- 32001) ''Session not found'' False)]"
proof -
  have "streamable (registry (delete_mcp oc req reg)) sid = None"
    using delete_mcp_terminated [OF assms(1,2,4,5)] by simp
  then have "get_property (streamable (registry (delete_mcp oc req reg))) sid = Undefined"
    using assms(3) by (simp add: get_property_def)
  from delete_mcp_not_found [OF assms(1,2) this] show ?thesis by simp
qed

text \<open>
  Claim C6 says that a DELETE /mcp request with a session id that is not in the registry
  is answered with HTTP 404 and the code -32001. The code does otherwise for a session
  id that names a property of \<^verbatim>\<open>Object.prototype\<close>: on the empty registry the header
  value \<^verbatim>\<open>constructor\<close> passes the check \<^verbatim>\<open>!this.transports.streamable[sessionId]\<close>,
  the inherited function has no \<^verbatim>\<open>onclose\<close>, the two deletions find nothing to delete,
  and the answer is HTTP 200 with \<^verbatim>\<open>{terminated: true}\<close>.
\<close>

theorem delete_mcp_inherited_key:
  "delete_mcp oc \<lparr>session_header = Some ''constructor'', is_initialize = False, query_sessionId = None\<rparr>
     initial_registry =
   \<lparr>responses = [Json 200 Terminated_result], registry = initial_registry, rejected = False,
    created = None\<rparr>"
  by (simp add: delete_mcp_def get_property_def Object_prototype_names_def initial_registry_def
      delete_property_def)

subsection \<open>POST /messages\<close>

lemma post_messages_delivered:
  assumes "query_sessionId req = Some q" and "sse reg q = Some t"
  shows "post_messages_target req reg = Some t \<and>
     post_messages sdk req reg =
       \<lparr>responses = (if writes_response sdk then [By_transport] else []), registry = reg,
        rejected = handle_rejects sdk, created = None\<rparr>"
  using assms by (simp add: post_messages_def post_messages_target_def get_property_def)

lemma post_messages_no_transport:
  assumes "get_property (sse reg) (case query_sessionId req of None \<Rightarrow> ''undefined'' | Some q \<Rightarrow> q) = Undefined"
  shows "post_messages sdk req reg =
     \<lparr>responses = [Text 400 ''No transport found for sessionId''], registry = reg,
      rejected = False, created = None\<rparr>"
  using assms by (simp add: post_messages_def)

text \<open>
  Claim C8 says that a POST /messages request whose \<^verbatim>\<open>sessionId\<close> matches no registered
  legacy transport is answered with HTTP 400 in plain text. The code does otherwise for
  a \<^verbatim>\<open>sessionId\<close> that names a property of \<^verbatim>\<open>Object.prototype\<close>: on the empty registry
  \<^verbatim>\<open>transports.sse["constructor"]\<close> is the inherited constructor function and truthy,
  \<^verbatim>\<open>transport.handlePostMessage\<close> is not a function, and the call throws out of the
  handler, which has no \<^verbatim>\<open>catch\<close>: the handler writes no response.
\<close>

theorem post_messages_inherited_key:
  "post_messages sdk \<lparr>session_header = None, is_initialize = False, query_sessionId = Some ''constructor''\<rparr>
     initial_registry =
   \<lparr>responses = [], registry = initial_registry, rejected = True, created = None\<rparr>"
  by (simp add: post_messages_def get_property_def Object_prototype_names_def initial_registry_def)

subsection \<open>Responses written by the handlers\<close>

text \<open>
  No handler writes a second response after a first one, the transport's included. The
  handlers of POST /mcp and DELETE /mcp let no exception escape; they leave exactly one
  response unless the transport returns without having written one. The handlers of
  GET /mcp, GET /sse and POST /messages have no \<^verbatim>\<open>catch\<close>: a call that throws leaves
  the handler, and what is answered then is decided outside of it.
\<close>

lemma post_mcp_responses:
  "length (responses (post_mcp sdk req reg)) \<le> 1 \<and> \<not> rejected (post_mcp sdk req reg) \<and>
   (writes_response sdk \<or> handle_rejects sdk \<or>
      \<not> (\<exists>t. lookup_session (session_header req) (streamable reg) = Own t) \<and>
      (header_truthy (session_header req) \<or> \<not> is_initialize req \<or> connect_rejects sdk)
    \<longrightarrow> length (responses (post_mcp sdk req reg)) = 1)"
  by (auto simp: post_mcp_def Let_def post_mcp_handle_def post_mcp_catch_def truthy_def
      split: property.splits option.splits)

lemma post_mcp_internal_error_alone:
  assumes "Json 500 (Error_envelope (- 32603) ''Internal server error'' True)
      \<in> set (responses (post_mcp sdk req reg))"
  shows "responses (post_mcp sdk req reg) =
     [Json 500 (Error_envelope (- 32603) ''Internal server error'' True)]"
  using assms
  by (auto simp: post_mcp_def Let_def post_mcp_handle_def post_mcp_catch_def truthy_def
      split: property.splits option.splits if_splits)

lemma delete_mcp_responses:
  "length (responses (delete_mcp oc req reg)) = 1 \<and> \<not> rejected (delete_mcp oc req reg)"
  by (auto simp: delete_mcp_def Let_def split: option.splits property.splits onclose_behaviour.splits)

lemma other_handlers_responses:
  "length (responses (get_mcp sdk req reg)) \<le> 1 \<and>
   length (responses (get_sse sdk sid reg)) \<le> 1 \<and>
   length (responses (post_messages sdk req reg)) \<le> 1"
  by (auto simp: get_mcp_def get_sse_def post_messages_def Let_def split: property.splits)

subsection \<open>The two maps of the registry\<close>

lemma randomUUID_not_proto: "randomUUID_result s \<Longrightarrow> s \<noteq> ''__proto__''"
  by (auto simp: randomUUID_result_def)

lemma onsessioninitialized_agree:
  assumes "id' \<noteq> ''__proto__''" and "maps_agree reg"
  shows "maps_agree (onsessioninitialized id' t es reg)"
  using assms by (simp add: maps_agree_def onsessioninitialized_def set_property_def)

lemma onsessioninitialized_registers:
  assumes "id' \<noteq> ''__proto__''"
  shows "streamable (onsessioninitialized id' t es reg) id' = Some t \<and>
     eventStores (onsessioninitialized id' t es reg) id' = Some es"
  using assms by (simp add: onsessioninitialized_def set_property_def)

lemma remove_both_agree:
  assumes "maps_agree reg"
  shows "maps_agree (reg\<lparr>streamable := delete_property (streamable reg) sid,
                         eventStores := (eventStores reg)(sid := None)\<rparr>)"
  using assms by (simp add: maps_agree_def delete_property_def)

lemma onclose_handler_agree:
  assumes "maps_agree reg"
  shows "maps_agree (onclose_handler t reg)"
  using assms remove_both_agree [OF assms]
  by (simp add: onclose_handler_def split: option.splits)

lemma post_mcp_handle_registry: "registry (post_mcp_handle sdk reg cr) = reg"
  by (simp add: post_mcp_handle_def post_mcp_catch_def Let_def)

lemma post_mcp_agree:
  assumes "generated_ids_ok (Post_mcp sdk req)" and "maps_agree reg"
  shows "maps_agree (registry (post_mcp sdk req reg))"
proof (cases "initialized_with sdk")
  case None
  then show ?thesis
    using assms(2)
    by (simp add: post_mcp_def Let_def post_mcp_handle_registry post_mcp_catch_def
        split: property.splits)
next
  case (Some id')
  then have "id' \<noteq> ''__proto__''"
    using assms(1) by (simp add: randomUUID_not_proto)
  then have "maps_agree (onsessioninitialized id' t es reg)" for t es
    using assms(2) by (rule onsessioninitialized_agree)
  then show ?thesis
    using assms(2) Some
    by (simp add: post_mcp_def Let_def post_mcp_handle_registry post_mcp_catch_def
        split: property.splits)
qed

lemma delete_mcp_agree:
  assumes "maps_agree reg"
  shows "maps_agree (registry (delete_mcp oc req reg))"
proof -
  have 1: "maps_agree (onclose_handler t reg)" for t
    using assms by (rule onclose_handler_agree)
  have 2: "maps_agree (r\<lparr>streamable := delete_property (streamable r) sid,
                         eventStores := (eventStores r)(sid := None)\<rparr>)" if "maps_agree r" for r :: "'a registry" and sid
    using that by (rule remove_both_agree)
  show ?thesis
    using assms 1 2 [OF assms] 2 [OF 1]
    by (simp add: delete_mcp_def Let_def split: option.splits property.splits onclose_behaviour.splits)
qed

lemma step_agree:
  assumes "generated_ids_ok s" and "maps_agree reg"
  shows "maps_agree (step s reg)"
proof (cases s)
  case (Post_mcp sdk req)
  then show ?thesis using assms post_mcp_agree by simp
next
  case (Get_mcp sdk req)
  then show ?thesis using assms(2) by (simp add: get_mcp_def split: property.splits)
next
  case (Delete_mcp oc req)
  then show ?thesis using assms(2) delete_mcp_agree by simp
next
  case (Get_sse sdk sid)
  then show ?thesis using assms(2) by (simp add: get_sse_def maps_agree_def)
next
  case (Post_messages sdk req)
  then show ?thesis using assms(2) by (simp add: post_messages_def Let_def split: property.splits)
next
  case (Transport_closed t)
  then show ?thesis using assms(2) onclose_handler_agree by simp
next
  case (Sse_closed sid)
  then show ?thesis using assms(2) by (simp add: sse_onclose_def maps_agree_def)
qed

lemma run_agree:
  assumes "list_all generated_ids_ok steps" and "maps_agree reg"
  shows "maps_agree (run steps reg)"
  using assms by (induction steps arbitrary: reg) (auto simp: step_agree)

lemma randomUUID_not_Nil: "randomUUID_result s \<Longrightarrow> s \<noteq> []"
  by (auto simp: randomUUID_result_def)

text \<open>Every registered transport is registered under its own session id, a generated one.\<close>

lemma onclose_handler_registered:
  assumes "\<forall>sid t. streamable reg sid = Some t \<longrightarrow> sessionId t = Some sid \<and> randomUUID_result sid"
  shows "\<forall>sid t. streamable (onclose_handler t' reg) sid = Some t \<longrightarrow>
     sessionId t = Some sid \<and> randomUUID_result sid"
  using assms
  by (auto simp: onclose_handler_def delete_property_def split: option.splits if_splits)

lemma step_registered:
  assumes "generated_ids_ok s"
    and "\<forall>sid t. streamable reg sid = Some t \<longrightarrow> sessionId t = Some sid \<and> randomUUID_result sid"
  shows "\<forall>sid t. streamable (step s reg) sid = Some t \<longrightarrow> sessionId t = Some sid \<and> randomUUID_result sid"
proof (cases s)
  case (Post_mcp sdk req)
  show ?thesis
  proof (cases "initialized_with sdk")
    case None
    then show ?thesis
      using assms(2) Post_mcp
      by (simp add: post_mcp_def Let_def post_mcp_handle_registry post_mcp_catch_def
          split: property.splits)
  next
    case (Some id')
    then have u: "randomUUID_result id'" using assms(1) Post_mcp by simp
    then have "id' \<noteq> ''__proto__''" by (rule randomUUID_not_proto)
    then have "\<forall>sid t. streamable (onsessioninitialized id' \<lparr>sessionId = Some id'\<rparr> es reg) sid = Some t \<longrightarrow>
        sessionId t = Some sid \<and> randomUUID_result sid" for es :: "'a events"
      using assms(2) u by (auto simp: onsessioninitialized_def set_property_def)
    then show ?thesis
      using assms(2) Some Post_mcp
      by (simp add: post_mcp_def Let_def post_mcp_handle_registry post_mcp_catch_def
          split: property.splits)
  qed
next
  case (Get_mcp sdk req)
  then show ?thesis using assms(2) by (simp add: get_mcp_def split: property.splits)
next
  case (Delete_mcp oc req)
  have 1: "\<forall>sid t. streamable (onclose_handler t' reg) sid = Some t \<longrightarrow>
     sessionId t = Some sid \<and> randomUUID_result sid" for t'
    using assms(2) by (rule onclose_handler_registered)
  show ?thesis
    using assms(2) 1 Delete_mcp
    by (auto simp: delete_mcp_def Let_def delete_property_def
        split: option.splits property.splits onclose_behaviour.splits if_splits)
next
  case (Get_sse sdk sid)
  then show ?thesis using assms(2) by (simp add: get_sse_def)
next
  case (Post_messages sdk req)
  then show ?thesis using assms(2) by (simp add: post_messages_def Let_def split: property.splits)
next
  case (Transport_closed t)
  then show ?thesis using onclose_handler_registered [OF assms(2)] by simp
next
  case (Sse_closed sid)
  then show ?thesis using assms(2) by (simp add: sse_onclose_def)
qed

lemma run_registered:
  assumes "list_all generated_ids_ok steps"
    and "\<forall>sid t. streamable reg sid = Some t \<longrightarrow> sessionId t = Some sid \<and> randomUUID_result sid"
  shows "\<forall>sid t. streamable (run steps reg) sid = Some t \<longrightarrow> sessionId t = Some sid \<and> randomUUID_result sid"
  using assms
proof (induction steps arbitrary: reg)
  case Nil
  from Nil.prems(2) show ?case unfolding run.simps .
next
  case (Cons s steps)
  have g1: "generated_ids_ok s" and g2: "list_all generated_ids_ok steps"
    using Cons.prems(1) by simp_all
  have st: "\<forall>sid t. streamable (step s reg) sid = Some t \<longrightarrow> sessionId t = Some sid \<and> randomUUID_result sid"
    using g1 Cons.prems(2) by (rule step_registered)
  show ?case unfolding run.simps using g2 st by (rule Cons.IH)
qed

text \<open>A new session: both entries appear, under the generated id, and no other entry changes.\<close>

lemma post_mcp_registers_both:
  assumes "\<not> header_truthy (session_header req)" and "is_initialize req"
    and "\<not> connect_rejects sdk" and "initialized_with sdk = Some id'" and "randomUUID_result id'"
  shows "streamable (step (Post_mcp sdk req) reg) id' = Some \<lparr>sessionId = Some id'\<rparr> \<and>
     eventStores (step (Post_mcp sdk req) reg) id' = Some [] \<and>
     (\<forall>k. k \<noteq> id' \<longrightarrow>
        streamable (step (Post_mcp sdk req) reg) k = streamable reg k \<and>
        eventStores (step (Post_mcp sdk req) reg) k = eventStores reg k)"
proof -
  have "lookup_session (session_header req) (streamable reg) = Undefined"
    using assms(1) by (auto simp: lookup_session_def header_truthy_def split: option.splits)
  then have "step (Post_mcp sdk req) reg = onsessioninitialized id' \<lparr>sessionId = Some id'\<rparr> [] reg"
    using assms(1-4) by (simp add: post_mcp_def Let_def truthy_def post_mcp_handle_registry)
  moreover have "id' \<noteq> ''__proto__''" using assms(5) by (rule randomUUID_not_proto)
  ultimately show ?thesis
    by (simp add: onsessioninitialized_def set_property_def)
qed

text \<open>The on-close handler of a registered transport removes both entries of its session, and no other.\<close>

lemma onclose_removes_both:
  assumes "streamable reg sid = Some t" and "sessionId t = Some sid" and "sid \<noteq> []"
  shows "streamable (onclose_handler t reg) sid = None \<and>
     eventStores (onclose_handler t reg) sid = None \<and>
     (\<forall>k. k \<noteq> sid \<longrightarrow>
        streamable (onclose_handler t reg) k = streamable reg k \<and>
        eventStores (onclose_handler t reg) k = eventStores reg k)"
  using assms by (simp add: onclose_handler_def get_property_def truthy_def delete_property_def)

text \<open>
  The handler of DELETE /mcp removes both entries of the session, and no other, unless
  the call of \<^verbatim>\<open>transport.onclose\<close> throws before the on-close handler ran: then it
  removes neither.
\<close>

lemma delete_mcp_removes_both:
  assumes "streamable reg sid = Some t" and "sessionId t = Some sid" and "sid \<noteq> []"
    and "session_header req = Some sid" and "oc \<noteq> Throws_before"
  shows "streamable (step (Delete_mcp oc req) reg) sid = None \<and>
     eventStores (step (Delete_mcp oc req) reg) sid = None \<and>
     (\<forall>k. k \<noteq> sid \<longrightarrow>
        streamable (step (Delete_mcp oc req) reg) k = streamable reg k \<and>
        eventStores (step (Delete_mcp oc req) reg) k = eventStores reg k)"
proof -
  have gp: "get_property (streamable reg) sid = Own t"
    using assms(1) by (simp add: get_property_def)
  note c = onclose_removes_both [OF assms(1-3)]
  show ?thesis
  proof (cases oc)
    case Unset
    have "step (Delete_mcp oc req) reg =
        reg\<lparr>streamable := delete_property (streamable reg) sid,
            eventStores := (eventStores reg)(sid := None)\<rparr>"
      by (simp add: delete_mcp_def assms(3,4) gp Unset)
    then show ?thesis by (simp add: delete_property_def)
  next
    case Returns
    have "step (Delete_mcp oc req) reg =
        (onclose_handler t reg)\<lparr>streamable := delete_property (streamable (onclose_handler t reg)) sid,
            eventStores := (eventStores (onclose_handler t reg))(sid := None)\<rparr>"
      by (simp add: delete_mcp_def assms(3,4) gp Returns Let_def)
    then show ?thesis using c by (simp add: delete_property_def)
  next
    case Throws_before
    then show ?thesis using assms(5) by simp
  next
    case Throws_after
    have "step (Delete_mcp oc req) reg = onclose_handler t reg"
      by (simp add: delete_mcp_def assms(3,4) gp Throws_after)
    then show ?thesis using c by simp
  qed
qed

lemma delete_mcp_throws_before:
  assumes "streamable reg sid = Some t" and "sid \<noteq> []" and "session_header req = Some sid"
  shows "step (Delete_mcp Throws_before req) reg = reg"
proof -
  have gp: "get_property (streamable reg) sid = Own t"
    using assms(1) by (simp add: get_property_def)
  show ?thesis
    by (simp add: delete_mcp_def assms(2,3) gp)
qed

text \<open>
  Claim C10. Start from the empty registry and let the server take any steps (handlers
  running, transports and legacy streams closing), the session ids of new sessions
  being results of \<^verbatim>\<open>randomUUID()\<close>, and let \<open>reg\<close> be the registry after any number of
  them. Then:

  \<^item> a session id has a transport in \<^verbatim>\<open>transports.streamable\<close> if and only if it has an
    event store in \<^verbatim>\<open>eventStores\<close>;
  \<^item> a POST /mcp that initializes a session (no session header, an initialize request,
    the SDK calling \<^verbatim>\<open>onsessioninitialized\<close> with the generated id) registers both the
    transport and an empty event store under that id, and changes no other entry of
    either map;
  \<^item> every transport of \<^verbatim>\<open>transports.streamable\<close> is registered under its own session id
    and has an event store; its on-close handler removes both entries of that id, and
    changes no other entry of either map;
  \<^item> DELETE /mcp with the id of a registered session removes both entries of that id and
    changes no other entry, whether \<^verbatim>\<open>transport.onclose\<close> is unset, returns, or throws
    after the handler ran; when the call throws before the handler ran, the registry is
    left as it was, with both entries.
\<close>

theorem registry_maps_agree:
  assumes "list_all generated_ids_ok steps"
    and "reg = run (take n steps) (initial_registry :: 'm registry)"
  shows "maps_agree reg \<and>
     (\<forall>sdk req id'.
        \<not> header_truthy (session_header req) \<and> is_initialize req \<and> \<not> connect_rejects sdk \<and>
        initialized_with sdk = Some id' \<and> randomUUID_result id' \<longrightarrow>
          streamable (step (Post_mcp sdk req) reg) id' = Some \<lparr>sessionId = Some id'\<rparr> \<and>
          eventStores (step (Post_mcp sdk req) reg) id' = Some [] \<and>
          (\<forall>k. k \<noteq> id' \<longrightarrow>
             streamable (step (Post_mcp sdk req) reg) k = streamable reg k \<and>
             eventStores (step (Post_mcp sdk req) reg) k = eventStores reg k)) \<and>
     (\<forall>sid t. streamable reg sid = Some t \<longrightarrow>
        eventStores reg sid \<noteq> None \<and> sessionId t = Some sid \<and>
        streamable (step (Transport_closed t) reg) sid = None \<and>
        eventStores (step (Transport_closed t) reg) sid = None \<and>
        (\<forall>k. k \<noteq> sid \<longrightarrow>
           streamable (step (Transport_closed t) reg) k = streamable reg k \<and>
           eventStores (step (Transport_closed t) reg) k = eventStores reg k) \<and>
        (\<forall>oc req. session_header req = Some sid \<longrightarrow>
           (oc \<noteq> Throws_before \<longrightarrow>
              streamable (step (Delete_mcp oc req) reg) sid = None \<and>
              eventStores (step (Delete_mcp oc req) reg) sid = None \<and>
              (\<forall>k. k \<noteq> sid \<longrightarrow>
                 streamable (step (Delete_mcp oc req) reg) k = streamable reg k \<and>
                 eventStores (step (Delete_mcp oc req) reg) k = eventStores reg k)) \<and>
           step (Delete_mcp Throws_before req) reg = reg))"
proof -
  have ok: "list_all generated_ids_ok (take n steps)"
    using assms(1) by (auto simp: list_all_iff dest: in_set_takeD)
  have "maps_agree (initial_registry :: 'm registry)"
    by (simp add: maps_agree_def initial_registry_def)
  with ok have agree: "maps_agree reg"
    unfolding assms(2) by (rule run_agree)
  have "\<forall>sid t. streamable (initial_registry :: 'm registry) sid = Some t \<longrightarrow>
      sessionId t = Some sid \<and> randomUUID_result sid"
    by (simp add: initial_registry_def)
  with ok have own: "\<forall>sid t. streamable reg sid = Some t \<longrightarrow> sessionId t = Some sid \<and> randomUUID_result sid"
    unfolding assms(2) by (rule run_registered)
  have new: "\<forall>sdk req id'.
        \<not> header_truthy (session_header req) \<and> is_initialize req \<and> \<not> connect_rejects sdk \<and>
        initialized_with sdk = Some id' \<and> randomUUID_result id' \<longrightarrow>
          streamable (step (Post_mcp sdk req) reg) id' = Some \<lparr>sessionId = Some id'\<rparr> \<and>
          eventStores (step (Post_mcp sdk req) reg) id' = Some [] \<and>
          (\<forall>k. k \<noteq> id' \<longrightarrow>
             streamable (step (Post_mcp sdk req) reg) k = streamable reg k \<and>
             eventStores (step (Post_mcp sdk req) reg) k = eventStores reg k)"
  proof (intro allI impI)
    fix sdk :: sdk_behaviour and req :: request and id' :: string
    assume h: "\<not> header_truthy (session_header req) \<and> is_initialize req \<and> \<not> connect_rejects sdk \<and>
        initialized_with sdk = Some id' \<and> randomUUID_result id'"
    show "streamable (step (Post_mcp sdk req) reg) id' = Some \<lparr>sessionId = Some id'\<rparr> \<and>
          eventStores (step (Post_mcp sdk req) reg) id' = Some [] \<and>
          (\<forall>k. k \<noteq> id' \<longrightarrow>
             streamable (step (Post_mcp sdk req) reg) k = streamable reg k \<and>
             eventStores (step (Post_mcp sdk req) reg) k = eventStores reg k)"
      by (rule post_mcp_registers_both) (use h in simp_all)
  qed
  have gone: "\<forall>sid t. streamable reg sid = Some t \<longrightarrow>
        eventStores reg sid \<noteq> None \<and> sessionId t = Some sid \<and>
        streamable (step (Transport_closed t) reg) sid = None \<and>
        eventStores (step (Transport_closed t) reg) sid = None \<and>
        (\<forall>k. k \<noteq> sid \<longrightarrow>
           streamable (step (Transport_closed t) reg) k = streamable reg k \<and>
           eventStores (step (Transport_closed t) reg) k = eventStores reg k) \<and>
        (\<forall>oc req. session_header req = Some sid \<longrightarrow>
           (oc \<noteq> Throws_before \<longrightarrow>
              streamable (step (Delete_mcp oc req) reg) sid = None \<and>
              eventStores (step (Delete_mcp oc req) reg) sid = None \<and>
              (\<forall>k. k \<noteq> sid \<longrightarrow>
                 streamable (step (Delete_mcp oc req) reg) k = streamable reg k \<and>
                 eventStores (step (Delete_mcp oc req) reg) k = eventStores reg k)) \<and>
           step (Delete_mcp Throws_before req) reg = reg)"
  proof (intro allI impI)
    fix sid t
    assume r: "streamable reg sid = Some t"
    note st = own [rule_format, OF r]
    have s: "sessionId t = Some sid" using st by (rule conjunct1)
    have ne: "sid \<noteq> []" using st by (intro randomUUID_not_Nil) (rule conjunct2)
    have "sid \<in> dom (streamable reg)" using r by (rule domI)
    then have "sid \<in> dom (eventStores reg)" using agree by (simp add: maps_agree_def)
    then have es: "eventStores reg sid \<noteq> None" by (simp add: dom_def)
    have c: "streamable (step (Transport_closed t) reg) sid = None \<and>
        eventStores (step (Transport_closed t) reg) sid = None \<and>
        (\<forall>k. k \<noteq> sid \<longrightarrow>
           streamable (step (Transport_closed t) reg) k = streamable reg k \<and>
           eventStores (step (Transport_closed t) reg) k = eventStores reg k)"
      unfolding step.simps using r s ne by (rule onclose_removes_both)
    have d: "\<forall>oc req. session_header req = Some sid \<longrightarrow>
           (oc \<noteq> Throws_before \<longrightarrow>
              streamable (step (Delete_mcp oc req) reg) sid = None \<and>
              eventStores (step (Delete_mcp oc req) reg) sid = None \<and>
              (\<forall>k. k \<noteq> sid \<longrightarrow>
                 streamable (step (Delete_mcp oc req) reg) k = streamable reg k \<and>
                 eventStores (step (Delete_mcp oc req) reg) k = eventStores reg k)) \<and>
           step (Delete_mcp Throws_before req) reg = reg"
    proof (intro allI impI)
      fix oc :: onclose_behaviour and req :: request
      assume h: "session_header req = Some sid"
      have tb: "step (Delete_mcp Throws_before req) reg = reg"
        using r ne h by (rule delete_mcp_throws_before)
      have rm: "oc \<noteq> Throws_before \<longrightarrow>
              streamable (step (Delete_mcp oc req) reg) sid = None \<and>
              eventStores (step (Delete_mcp oc req) reg) sid = None \<and>
              (\<forall>k. k \<noteq> sid \<longrightarrow>
                 streamable (step (Delete_mcp oc req) reg) k = streamable reg k \<and>
                 eventStores (step (Delete_mcp oc req) reg) k = eventStores reg k)"
      proof
        assume o: "oc \<noteq> Throws_before"
        show "streamable (step (Delete_mcp oc req) reg) sid = None \<and>
              eventStores (step (Delete_mcp oc req) reg) sid = None \<and>
              (\<forall>k. k \<noteq> sid \<longrightarrow>
                 streamable (step (Delete_mcp oc req) reg) k = streamable reg k \<and>
                 eventStores (step (Delete_mcp oc req) reg) k = eventStores reg k)"
          using r s ne h o by (rule delete_mcp_removes_both)
      qed
      show "(oc \<noteq> Throws_before \<longrightarrow>
              streamable (step (Delete_mcp oc req) reg) sid = None \<and>
              eventStores (step (Delete_mcp oc req) reg) sid = None \<and>
              (\<forall>k. k \<noteq> sid \<longrightarrow>
                 streamable (step (Delete_mcp oc req) reg) k = streamable reg k \<and>
                 eventStores (step (Delete_mcp oc req) reg) k = eventStores reg k)) \<and>
           step (Delete_mcp Throws_before req) reg = reg"
        using rm tb by (rule conjI)
    qed
    show "eventStores reg sid \<noteq> None \<and> sessionId t = Some sid \<and>
        streamable (step (Transport_closed t) reg) sid = None \<and>
        eventStores (step (Transport_closed t) reg) sid = None \<and>
        (\<forall>k. k \<noteq> sid \<longrightarrow>
           streamable (step (Transport_closed t) reg) k = streamable reg k \<and>
           eventStores (step (Transport_closed t) reg) k = eventStores reg k) \<and>
        (\<forall>oc req. session_header req = Some sid \<longrightarrow>
           (oc \<noteq> Throws_before \<longrightarrow>
              streamable (step (Delete_mcp oc req) reg) sid = None \<and>
              eventStores (step (Delete_mcp oc req) reg) sid = None \<and>
              (\<forall>k. k \<noteq> sid \<longrightarrow>
                 streamable (step (Delete_mcp oc req) reg) k = streamable reg k \<and>
                 eventStores (step (Delete_mcp oc req) reg) k = eventStores reg k)) \<and>
           step (Delete_mcp Throws_before req) reg = reg)"
      by (rule conjI [OF es conjI [OF s]]) (use c d in blast)
  qed
  show ?thesis
    by (rule conjI [OF agree conjI [OF new gone]])
qed

theorem registry_maps_agree_witness:
  "list_all generated_ids_ok
    [Post_mcp \<lparr>connect_rejects = False, initialized_with = Some ''123e4567-e89b-42d3-a456-426614174000'',
       writes_response = True, handle_rejects = False\<rparr>
       \<lparr>session_header = None, is_initialize = True, query_sessionId = None\<rparr>,
     Post_mcp \<lparr>connect_rejects = False, initialized_with = Some ''9b2f0c1a-7d4e-4f3b-8a6c-5e1d2f3a4b5c'',
       writes_response = True, handle_rejects = False\<rparr>
       \<lparr>session_header = None, is_initialize = True, query_sessionId = None\<rparr>,
     Delete_mcp Returns
       \<lparr>session_header = Some ''123e4567-e89b-42d3-a456-426614174000'',
       is_initialize = False, query_sessionId = None\<rparr>] \<and>
   streamable (run (take 2
    [Post_mcp \<lparr>connect_rejects = False, initialized_with = Some ''123e4567-e89b-42d3-a456-426614174000'',
       writes_response = True, handle_rejects = False\<rparr>
       \<lparr>session_header = None, is_initialize = True, query_sessionId = None\<rparr>,
     Post_mcp \<lparr>connect_rejects = False, initialized_with = Some ''9b2f0c1a-7d4e-4f3b-8a6c-5e1d2f3a4b5c'',
       writes_response = True, handle_rejects = False\<rparr>
       \<lparr>session_header = None, is_initialize = True, query_sessionId = None\<rparr>,
     Delete_mcp Returns
       \<lparr>session_header = Some ''123e4567-e89b-42d3-a456-426614174000'',
       is_initialize = False, query_sessionId = None\<rparr>])
    (initial_registry :: nat registry))
    ''123e4567-e89b-42d3-a456-426614174000'' = Some \<lparr>sessionId = Some ''123e4567-e89b-42d3-a456-426614174000''\<rparr> \<and>
   streamable (run (take 2
    [Post_mcp \<lparr>connect_rejects = False, initialized_with = Some ''123e4567-e89b-42d3-a456-426614174000'',
       writes_response = True, handle_rejects = False\<rparr>
       \<lparr>session_header = None, is_initialize = True, query_sessionId = None\<rparr>,
     Post_mcp \<lparr>connect_rejects = False, initialized_with = Some ''9b2f0c1a-7d4e-4f3b-8a6c-5e1d2f3a4b5c'',
       writes_response = True, handle_rejects = False\<rparr>
       \<lparr>session_header = None, is_initialize = True, query_sessionId = None\<rparr>,
     Delete_mcp Returns
       \<lparr>session_header = Some ''123e4567-e89b-42d3-a456-426614174000'',
       is_initialize = False, query_sessionId = None\<rparr>])
    (initial_registry :: nat registry))
    ''9b2f0c1a-7d4e-4f3b-8a6c-5e1d2f3a4b5c'' = Some \<lparr>sessionId = Some ''9b2f0c1a-7d4e-4f3b-8a6c-5e1d2f3a4b5c''\<rparr> \<and>
   eventStores (run (take 2
    [Post_mcp \<lparr>connect_rejects = False, initialized_with = Some ''123e4567-e89b-42d3-a456-426614174000'',
       writes_response = True, handle_rejects = False\<rparr>
       \<lparr>session_header = None, is_initialize = True, query_sessionId = None\<rparr>,
     Post_mcp \<lparr>connect_rejects = False, initialized_with = Some ''9b2f0c1a-7d4e-4f3b-8a6c-5e1d2f3a4b5c'',
       writes_response = True, handle_rejects = False\<rparr>
       \<lparr>session_header = None, is_initialize = True, query_sessionId = None\<rparr>,
     Delete_mcp Returns
       \<lparr>session_header = Some ''123e4567-e89b-42d3-a456-426614174000'',
       is_initialize = False, query_sessionId = None\<rparr>])
    (initial_registry :: nat registry))
    ''9b2f0c1a-7d4e-4f3b-8a6c-5e1d2f3a4b5c'' = Some [] \<and>
   maps_agree (run (take 2
    [Post_mcp \<lparr>connect_rejects = False, initialized_with = Some ''123e4567-e89b-42d3-a456-426614174000'',
       writes_response = True, handle_rejects = False\<rparr>
       \<lparr>session_header = None, is_initialize = True, query_sessionId = None\<rparr>,
     Post_mcp \<lparr>connect_rejects = False, initialized_with = Some ''9b2f0c1a-7d4e-4f3b-8a6c-5e1d2f3a4b5c'',
       writes_response = True, handle_rejects = False\<rparr>
       \<lparr>session_header = None, is_initialize = True, query_sessionId = None\<rparr>,
     Delete_mcp Returns
       \<lparr>session_header = Some ''123e4567-e89b-42d3-a456-426614174000'',
       is_initialize = False, query_sessionId = None\<rparr>])
    (initial_registry :: nat registry)) \<and>
   eventStores (run (take 2
    [Post_mcp \<lparr>connect_rejects = False, initialized_with = Some ''123e4567-e89b-42d3-a456-426614174000'',
       writes_response = True, handle_rejects = False\<rparr>
       \<lparr>session_header = None, is_initialize = True, query_sessionId = None\<rparr>,
     Post_mcp \<lparr>connect_rejects = False, initialized_with = Some ''9b2f0c1a-7d4e-4f3b-8a6c-5e1d2f3a4b5c'',
       writes_response = True, handle_rejects = False\<rparr>
       \<lparr>session_header = None, is_initialize = True, query_sessionId = None\<rparr>,
     Delete_mcp Returns
       \<lparr>session_header = Some ''123e4567-e89b-42d3-a456-426614174000'',
       is_initialize = False, query_sessionId = None\<rparr>])
    (initial_registry :: nat registry))
    ''123e4567-e89b-42d3-a456-426614174000'' \<noteq> None \<and>
   streamable (step (Transport_closed \<lparr>sessionId = Some ''123e4567-e89b-42d3-a456-426614174000''\<rparr>)
    (run (take 2
    [Post_mcp \<lparr>connect_rejects = False, initialized_with = Some ''123e4567-e89b-42d3-a456-426614174000'',
       writes_response = True, handle_rejects = False\<rparr>
       \<lparr>session_header = None, is_initialize = True, query_sessionId = None\<rparr>,
     Post_mcp \<lparr>connect_rejects = False, initialized_with = Some ''9b2f0c1a-7d4e-4f3b-8a6c-5e1d2f3a4b5c'',
       writes_response = True, handle_rejects = False\<rparr>
       \<lparr>session_header = None, is_initialize = True, query_sessionId = None\<rparr>,
     Delete_mcp Returns
       \<lparr>session_header = Some ''123e4567-e89b-42d3-a456-426614174000'',
       is_initialize = False, query_sessionId = None\<rparr>])
    (initial_registry :: nat registry)))
    ''123e4567-e89b-42d3-a456-426614174000'' = None \<and>
   eventStores (step (Transport_closed \<lparr>sessionId = Some ''123e4567-e89b-42d3-a456-426614174000''\<rparr>)
    (run (take 2
    [Post_mcp \<lparr>connect_rejects = False, initialized_with = Some ''123e4567-e89b-42d3-a456-426614174000'',
       writes_response = True, handle_rejects = False\<rparr>
       \<lparr>session_header = None, is_initialize = True, query_sessionId = None\<rparr>,
     Post_mcp \<lparr>connect_rejects = False, initialized_with = Some ''9b2f0c1a-7d4e-4f3b-8a6c-5e1d2f3a4b5c'',
       writes_response = True, handle_rejects = False\<rparr>
       \<lparr>session_header = None, is_initialize = True, query_sessionId = None\<rparr>,
     Delete_mcp Returns
       \<lparr>session_header = Some ''123e4567-e89b-42d3-a456-426614174000'',
       is_initialize = False, query_sessionId = None\<rparr>])
    (initial_registry :: nat registry)))
    ''123e4567-e89b-42d3-a456-426614174000'' = None \<and>
   streamable (step (Transport_closed \<lparr>sessionId = Some ''123e4567-e89b-42d3-a456-426614174000''\<rparr>)
    (run (take 2
    [Post_mcp \<lparr>connect_rejects = False, initialized_with = Some ''123e4567-e89b-42d3-a456-426614174000'',
       writes_response = True, handle_rejects = False\<rparr>
       \<lparr>session_header = None, is_initialize = True, query_sessionId = None\<rparr>,
     Post_mcp \<lparr>connect_rejects = False, initialized_with = Some ''9b2f0c1a-7d4e-4f3b-8a6c-5e1d2f3a4b5c'',
       writes_response = True, handle_rejects = False\<rparr>
       \<lparr>session_header = None, is_initialize = True, query_sessionId = None\<rparr>,
     Delete_mcp Returns
       \<lparr>session_header = Some ''123e4567-e89b-42d3-a456-426614174000'',
       is_initialize = False, query_sessionId = None\<rparr>])
    (initial_registry :: nat registry)))
    ''9b2f0c1a-7d4e-4f3b-8a6c-5e1d2f3a4b5c'' = Some \<lparr>sessionId = Some ''9b2f0c1a-7d4e-4f3b-8a6c-5e1d2f3a4b5c''\<rparr> \<and>
   eventStores (step (Transport_closed \<lparr>sessionId = Some ''123e4567-e89b-42d3-a456-426614174000''\<rparr>)
    (run (take 2
    [Post_mcp \<lparr>connect_rejects = False, initialized_with = Some ''123e4567-e89b-42d3-a456-426614174000'',
       writes_response = True, handle_rejects = False\<rparr>
       \<lparr>session_header = None, is_initialize = True, query_sessionId = None\<rparr>,
     Post_mcp \<lparr>connect_rejects = False, initialized_with = Some ''9b2f0c1a-7d4e-4f3b-8a6c-5e1d2f3a4b5c'',
       writes_response = True, handle_rejects = False\<rparr>
       \<lparr>session_header = None, is_initialize = True, query_sessionId = None\<rparr>,
     Delete_mcp Returns
       \<lparr>session_header = Some ''123e4567-e89b-42d3-a456-426614174000'',
       is_initialize = False, query_sessionId = None\<rparr>])
    (initial_registry :: nat registry)))
    ''9b2f0c1a-7d4e-4f3b-8a6c-5e1d2f3a4b5c'' = Some [] \<and>
   streamable (step (Delete_mcp Returns
      \<lparr>session_header = Some ''123e4567-e89b-42d3-a456-426614174000'',
       is_initialize = False, query_sessionId = None\<rparr>)
    (run (take 2
    [Post_mcp \<lparr>connect_rejects = False, initialized_with = Some ''123e4567-e89b-42d3-a456-426614174000'',
       writes_response = True, handle_rejects = False\<rparr>
       \<lparr>session_header = None, is_initialize = True, query_sessionId = None\<rparr>,
     Post_mcp \<lparr>connect_rejects = False, initialized_with = Some ''9b2f0c1a-7d4e-4f3b-8a6c-5e1d2f3a4b5c'',
       writes_response = True, handle_rejects = False\<rparr>
       \<lparr>session_header = None, is_initialize = True, query_sessionId = None\<rparr>,
     Delete_mcp Returns
       \<lparr>session_header = Some ''123e4567-e89b-42d3-a456-426614174000'',
       is_initialize = False, query_sessionId = None\<rparr>])
    (initial_registry :: nat registry)))
    ''123e4567-e89b-42d3-a456-426614174000'' = None \<and>
   eventStores (step (Delete_mcp Returns
      \<lparr>session_header = Some ''123e4567-e89b-42d3-a456-426614174000'',
       is_initialize = False, query_sessionId = None\<rparr>)
    (run (take 2
    [Post_mcp \<lparr>connect_rejects = False, initialized_with = Some ''123e4567-e89b-42d3-a456-426614174000'',
       writes_response = True, handle_rejects = False\<rparr>
       \<lparr>session_header = None, is_initialize = True, query_sessionId = None\<rparr>,
     Post_mcp \<lparr>connect_rejects = False, initialized_with = Some ''9b2f0c1a-7d4e-4f3b-8a6c-5e1d2f3a4b5c'',
       writes_response = True, handle_rejects = False\<rparr>
       \<lparr>session_header = None, is_initialize = True, query_sessionId = None\<rparr>,
     Delete_mcp Returns
       \<lparr>session_header = Some ''123e4567-e89b-42d3-a456-426614174000'',
       is_initialize = False, query_sessionId = None\<rparr>])
    (initial_registry :: nat registry)))
    ''123e4567-e89b-42d3-a456-426614174000'' = None \<and>
   streamable (step (Delete_mcp Returns
      \<lparr>session_header = Some ''123e4567-e89b-42d3-a456-426614174000'',
       is_initialize = False, query_sessionId = None\<rparr>)
    (run (take 2
    [Post_mcp \<lparr>connect_rejects = False, initialized_with = Some ''123e4567-e89b-42d3-a456-426614174000'',
       writes_response = True, handle_rejects = False\<rparr>
       \<lparr>session_header = None, is_initialize = True, query_sessionId = None\<rparr>,
     Post_mcp \<lparr>connect_rejects = False, initialized_with = Some ''9b2f0c1a-7d4e-4f3b-8a6c-5e1d2f3a4b5c'',
       writes_response = True, handle_rejects = False\<rparr>
       \<lparr>session_header = None, is_initialize = True, query_sessionId = None\<rparr>,
     Delete_mcp Returns
       \<lparr>session_header = Some ''123e4567-e89b-42d3-a456-426614174000'',
       is_initialize = False, query_sessionId = None\<rparr>])
    (initial_registry :: nat registry)))
    ''9b2f0c1a-7d4e-4f3b-8a6c-5e1d2f3a4b5c'' = Some \<lparr>sessionId = Some ''9b2f0c1a-7d4e-4f3b-8a6c-5e1d2f3a4b5c''\<rparr> \<and>
   eventStores (step (Delete_mcp Returns
      \<lparr>session_header = Some ''123e4567-e89b-42d3-a456-426614174000'',
       is_initialize = False, query_sessionId = None\<rparr>)
    (run (take 2
    [Post_mcp \<lparr>connect_rejects = False, initialized_with = Some ''123e4567-e89b-42d3-a456-426614174000'',
       writes_response = True, handle_rejects = False\<rparr>
       \<lparr>session_header = None, is_initialize = True, query_sessionId = None\<rparr>,
     Post_mcp \<lparr>connect_rejects = False, initialized_with = Some ''9b2f0c1a-7d4e-4f3b-8a6c-5e1d2f3a4b5c'',
       writes_response = True, handle_rejects = False\<rparr>
       \<lparr>session_header = None, is_initialize = True, query_sessionId = None\<rparr>,
     Delete_mcp Returns
       \<lparr>session_header = Some ''123e4567-e89b-42d3-a456-426614174000'',
       is_initialize = False, query_sessionId = None\<rparr>])
    (initial_registry :: nat registry)))
    ''9b2f0c1a-7d4e-4f3b-8a6c-5e1d2f3a4b5c'' = Some [] \<and>
   step (Delete_mcp Throws_before
      \<lparr>session_header = Some ''123e4567-e89b-42d3-a456-426614174000'',
       is_initialize = False, query_sessionId = None\<rparr>)
    (run (take 2
    [Post_mcp \<lparr>connect_rejects = False, initialized_with = Some ''123e4567-e89b-42d3-a456-426614174000'',
       writes_response = True, handle_rejects = False\<rparr>
       \<lparr>session_header = None, is_initialize = True, query_sessionId = None\<rparr>,
     Post_mcp \<lparr>connect_rejects = False, initialized_with = Some ''9b2f0c1a-7d4e-4f3b-8a6c-5e1d2f3a4b5c'',
       writes_response = True, handle_rejects = False\<rparr>
       \<lparr>session_header = None, is_initialize = True, query_sessionId = None\<rparr>,
     Delete_mcp Returns
       \<lparr>session_header = Some ''123e4567-e89b-42d3-a456-426614174000'',
       is_initialize = False, query_sessionId = None\<rparr>])
    (initial_registry :: nat registry))
    = (run (take 2
    [Post_mcp \<lparr>connect_rejects = False, initialized_with = Some ''123e4567-e89b-42d3-a456-426614174000'',
       writes_response = True, handle_rejects = False\<rparr>
       \<lparr>session_header = None, is_initialize = True, query_sessionId = None\<rparr>,
     Post_mcp \<lparr>connect_rejects = False, initialized_with = Some ''9b2f0c1a-7d4e-4f3b-8a6c-5e1d2f3a4b5c'',
       writes_response = True, handle_rejects = False\<rparr>
       \<lparr>session_header = None, is_initialize = True, query_sessionId = None\<rparr>,
     Delete_mcp Returns
       \<lparr>session_header = Some ''123e4567-e89b-42d3-a456-426614174000'',
       is_initialize = False, query_sessionId = None\<rparr>])
    (initial_registry :: nat registry)) \<and>
   \<not> header_truthy (session_header \<lparr>session_header = None, is_initialize = True, query_sessionId = None\<rparr>) \<and>
   is_initialize \<lparr>session_header = None, is_initialize = True, query_sessionId = None\<rparr> \<and>
   randomUUID_result ''0a1b2c3d-4e5f-4a7b-8c9d-0e1f2a3b4c5d'' \<and>
   streamable (step (Post_mcp \<lparr>connect_rejects = False, initialized_with = Some ''0a1b2c3d-4e5f-4a7b-8c9d-0e1f2a3b4c5d'',
       writes_response = True, handle_rejects = False\<rparr>
      \<lparr>session_header = None, is_initialize = True, query_sessionId = None\<rparr>)
    (run (take 2
    [Post_mcp \<lparr>connect_rejects = False, initialized_with = Some ''123e4567-e89b-42d3-a456-426614174000'',
       writes_response = True, handle_rejects = False\<rparr>
       \<lparr>session_header = None, is_initialize = True, query_sessionId = None\<rparr>,
     Post_mcp \<lparr>connect_rejects = False, initialized_with = Some ''9b2f0c1a-7d4e-4f3b-8a6c-5e1d2f3a4b5c'',
       writes_response = True, handle_rejects = False\<rparr>
       \<lparr>session_header = None, is_initialize = True, query_sessionId = None\<rparr>,
     Delete_mcp Returns
       \<lparr>session_header = Some ''123e4567-e89b-42d3-a456-426614174000'',
       is_initialize = False, query_sessionId = None\<rparr>])
    (initial_registry :: nat registry)))
    ''0a1b2c3d-4e5f-4a7b-8c9d-0e1f2a3b4c5d'' = Some \<lparr>sessionId = Some ''0a1b2c3d-4e5f-4a7b-8c9d-0e1f2a3b4c5d''\<rparr> \<and>
   eventStores (step (Post_mcp \<lparr>connect_rejects = False, initialized_with = Some ''0a1b2c3d-4e5f-4a7b-8c9d-0e1f2a3b4c5d'',
       writes_response = True, handle_rejects = False\<rparr>
      \<lparr>session_header = None, is_initialize = True, query_sessionId = None\<rparr>)
    (run (take 2
    [Post_mcp \<lparr>connect_rejects = False, initialized_with = Some ''123e4567-e89b-42d3-a456-426614174000'',
       writes_response = True, handle_rejects = False\<rparr>
       \<lparr>session_header = None, is_initialize = True, query_sessionId = None\<rparr>,
     Post_mcp \<lparr>connect_rejects = False, initialized_with = Some ''9b2f0c1a-7d4e-4f3b-8a6c-5e1d2f3a4b5c'',
       writes_response = True, handle_rejects = False\<rparr>
       \<lparr>session_header = None, is_initialize = True, query_sessionId = None\<rparr>,
     Delete_mcp Returns
       \<lparr>session_header = Some ''123e4567-e89b-42d3-a456-426614174000'',
       is_initialize = False, query_sessionId = None\<rparr>])
    (initial_registry :: nat registry)))
    ''0a1b2c3d-4e5f-4a7b-8c9d-0e1f2a3b4c5d'' = Some [] \<and>
   streamable (step (Post_mcp \<lparr>connect_rejects = False, initialized_with = Some ''0a1b2c3d-4e5f-4a7b-8c9d-0e1f2a3b4c5d'',
       writes_response = True, handle_rejects = False\<rparr>
      \<lparr>session_header = None, is_initialize = True, query_sessionId = None\<rparr>)
    (run (take 2
    [Post_mcp \<lparr>connect_rejects = False, initialized_with = Some ''123e4567-e89b-42d3-a456-426614174000'',
       writes_response = True, handle_rejects = False\<rparr>
       \<lparr>session_header = None, is_initialize = True, query_sessionId = None\<rparr>,
     Post_mcp \<lparr>connect_rejects = False, initialized_with = Some ''9b2f0c1a-7d4e-4f3b-8a6c-5e1d2f3a4b5c'',
       writes_response = True, handle_rejects = False\<rparr>
       \<lparr>session_header = None, is_initialize = True, query_sessionId = None\<rparr>,
     Delete_mcp Returns
       \<lparr>session_header = Some ''123e4567-e89b-42d3-a456-426614174000'',
       is_initialize = False, query_sessionId = None\<rparr>])
    (initial_registry :: nat registry)))
    ''123e4567-e89b-42d3-a456-426614174000'' = Some \<lparr>sessionId = Some ''123e4567-e89b-42d3-a456-426614174000''\<rparr> \<and>
   eventStores (step (Post_mcp \<lparr>connect_rejects = False, initialized_with = Some ''0a1b2c3d-4e5f-4a7b-8c9d-0e1f2a3b4c5d'',
       writes_response = True, handle_rejects = False\<rparr>
      \<lparr>session_header = None, is_initialize = True, query_sessionId = None\<rparr>)
    (run (take 2
    [Post_mcp \<lparr>connect_rejects = False, initialized_with = Some ''123e4567-e89b-42d3-a456-426614174000'',
       writes_response = True, handle_rejects = False\<rparr>
       \<lparr>session_header = None, is_initialize = True, query_sessionId = None\<rparr>,
     Post_mcp \<lparr>connect_rejects = False, initialized_with = Some ''9b2f0c1a-7d4e-4f3b-8a6c-5e1d2f3a4b5c'',
       writes_response = True, handle_rejects = False\<rparr>
       \<lparr>session_header = None, is_initialize = True, query_sessionId = None\<rparr>,
     Delete_mcp Returns
       \<lparr>session_header = Some ''123e4567-e89b-42d3-a456-426614174000'',
       is_initialize = False, query_sessionId = None\<rparr>])
    (initial_registry :: nat registry)))
    ''123e4567-e89b-42d3-a456-426614174000'' = eventStores (run (take 2
    [Post_mcp \<lparr>connect_rejects = False, initialized_with = Some ''123e4567-e89b-42d3-a456-426614174000'',
       writes_response = True, handle_rejects = False\<rparr>
       \<lparr>session_header = None, is_initialize = True, query_sessionId = None\<rparr>,
     Post_mcp \<lparr>connect_rejects = False, initialized_with = Some ''9b2f0c1a-7d4e-4f3b-8a6c-5e1d2f3a4b5c'',
       writes_response = True, handle_rejects = False\<rparr>
       \<lparr>session_header = None, is_initialize = True, query_sessionId = None\<rparr>,
     Delete_mcp Returns
       \<lparr>session_header = Some ''123e4567-e89b-42d3-a456-426614174000'',
       is_initialize = False, query_sessionId = None\<rparr>])
    (initial_registry :: nat registry))
    ''123e4567-e89b-42d3-a456-426614174000''"
  (is "list_all generated_ids_ok ?steps \<and> streamable ?reg ?u = Some ?tu \<and>
    streamable _ ?u2 = Some ?tu2 \<and> _ \<and> _ \<and> _ \<and> _ \<and> _ \<and> _ \<and> _ \<and> _ \<and> _ \<and> _ \<and> _ \<and> _ \<and>
    \<not> header_truthy (session_header ?reqi) \<and> _ \<and> randomUUID_result ?u3 \<and>
    streamable (step (Post_mcp ?sdk3 _) _) _ = _ \<and> _")
proof -
  have ok: "list_all generated_ids_ok ?steps"
    by (simp add: randomUUID_result_def)
  have r: "streamable ?reg ?u = Some ?tu"
    by (simp add: post_mcp_def Let_def lookup_session_def header_truthy_def truthy_def
        post_mcp_handle_def onsessioninitialized_def set_property_def get_property_def initial_registry_def)
  have r2: "streamable ?reg ?u2 = Some ?tu2"
    by (simp add: post_mcp_def Let_def lookup_session_def header_truthy_def truthy_def
        post_mcp_handle_def onsessioninitialized_def set_property_def get_property_def initial_registry_def)
  have e2: "eventStores ?reg ?u2 = Some []"
    by (simp add: post_mcp_def Let_def lookup_session_def header_truthy_def truthy_def
        post_mcp_handle_def onsessioninitialized_def set_property_def get_property_def initial_registry_def)
  have h3: "\<not> header_truthy (session_header ?reqi) \<and> is_initialize ?reqi \<and>
      \<not> connect_rejects ?sdk3 \<and> initialized_with ?sdk3 = Some ?u3 \<and> randomUUID_result ?u3"
    by (simp add: header_truthy_def randomUUID_result_def)
  note t = registry_maps_agree [OF ok refl [of ?reg]]
  note agree = t [THEN conjunct1]
  note new = t [THEN conjunct2, THEN conjunct1, THEN spec, THEN spec, THEN spec, THEN mp, OF h3]
  note gone = t [THEN conjunct2, THEN conjunct2, THEN spec, THEN spec, THEN mp, OF r]
  show ?thesis
    using ok r r2 e2 h3 agree new gone by simp
qed

end
